theory Spec2Isabelle
  imports Complex_Main "HOL-Library.Log_Nat"
begin

section \<open>The program graph of the GPU graph compiler (program.cpp)\<close>

text \<open>
  The C++ program owns its nodes through \<open>nodes_map\<close> (a \<open>std::map\<close> from primitive id to
  a shared pointer) and links them with raw pointers (\<open>dependencies\<close>, \<open>users\<close>). The
  embedding keeps this shape: a node pointer is an address, the nodes live in a store
  from addresses to node records, and every list of pointers is a list of addresses, so
  that aliasing (one node reached through several lists) is what it is in the code.
\<close>

subsection \<open>Data model\<close>

type_synonym primitive_id = string
type_synonym node_ptr = nat

datatype data_types = u8 | i8 | f16 | f32 | i32 | i64

record padding =
  lower_size :: "int list"
  upper_size :: "int list"

record tensor =
  batch :: "int list"
  feature :: "int list"
  spatial :: "int list"

datatype format = any | bfyx | b_fs_yx_fsv16 | b_fs_zyx_fsv16 | bs_fs_yx_bsv16_fsv16

record layout =
  data_type :: data_types
  fmt :: format
  get_tensor :: tensor
  data_padding :: padding

text \<open>
  The typed part of a node: the primitive kind and, for the kinds whose parameters
  program.cpp reads, those parameters. \<open>quantize_node\<close> holds the flags that
  \<open>fuse_nodes\<close> reads through the getters of the C++ \<open>quantize_node\<close>; the two range
  values are C++ floats that are only compared with \<open><\<close>, so their type is left
  open (\<open>'v\<close>) and the comparison is the one of that type.
\<close>

record 'v quantize_node =
  scale_shift_opt :: bool
  need_post_scale :: bool
  need_post_shift :: bool
  need_pre_shift :: bool
  need_clamp :: bool
  per_tensor_input_range :: bool
  per_tensor_input_scale :: bool
  per_tensor_input_shift :: bool
  per_tensor_output_range :: bool
  per_tensor_output_scale :: bool
  per_tensor_output_shift :: bool
  output_lo_val :: 'v
  output_hi_val :: 'v

record convolution_prim =
  conv_with_output_size :: bool
  conv_output_size :: tensor
  conv_pad :: "int list"
  conv_stride :: "nat list"
  conv_dilation :: "nat list"
  conv_groups :: nat
  conv_split :: int
  conv_deformable_mode :: bool
  conv_weights_zero_points_term :: bool
  conv_activations_zero_points_term :: bool

record binary_convolution_prim =
  bconv_output_size :: tensor
  bconv_pad :: "int list"
  bconv_stride :: "nat list"
  bconv_dilation :: "nat list"

record deconvolution_prim =
  deconv_with_output_size :: bool
  deconv_output_size :: tensor
  deconv_pad :: "int list"
  deconv_stride :: "nat list"

record pooling_prim =
  pool_with_output_size :: bool
  pool_output_size :: tensor
  pool_size :: "nat list"
  pool_pad :: "nat list"
  pool_stride :: "nat list"

record mvn_prim =
  mvn_across_channels :: bool

datatype 'v primitive_kind =
    convolution convolution_prim
  | binary_convolution binary_convolution_prim
  | deconvolution deconvolution_prim
  | pooling pooling_prim
  | quantize "'v quantize_node"
  | mvn mvn_prim
  | activation
  | adaptive_pooling
  | arg_max_min
  | border
  | broadcast
  | bucketize
  | concatenation
  | crop
  | ctc_loss
  | custom_gpu_primitive
  | data
  | depth_to_space
  | detection_output
  | dft
  | eltwise
  | experimental_detectron_detection_output
  | eye
  | fully_connected
  | gather
  | gemm
  | generate_proposals
  | generic_layer
  | input_layout
  | mutable_data
  | non_max_suppression
  | normalize_primitive
  | permute
  | prior_box
  | proposal
  | reduce
  | region_yolo
  | reorder
  | reorg_yolo
  | resample
  | reshape
  | reverse
  | roi_align
  | roi_pooling
  | roll
  | scatter_elements_update
  | scatter_nd_update
  | shuffle_channels
  | softmax
  | strided_slice
  | other_primitive string

record 'v program_node =
  node_id :: primitive_id
  kind :: "'v primitive_kind"
  origin_op_name :: string
  origin_op_type_name :: string
  dependencies :: "node_ptr list"
  users :: "node_ptr list"
  is_output :: bool
  is_constant :: bool
  data_flow :: bool
  user_mark :: nat
  output_layout :: layout
  valid_output_layout :: bool
  memory_dependencies :: "primitive_id set"

record engine_configuration =
  use_memory_pool :: bool

record 'v program =
  nodes :: "node_ptr \<Rightarrow> 'v program_node"
  nodes_map :: "primitive_id \<rightharpoonup> node_ptr"
  inputs :: "node_ptr list"
  outputs :: "node_ptr list"
  processing_order :: "node_ptr list"
  optimized_out :: "primitive_id list"
  optimized :: "(primitive_id \<times> primitive_id list) list"
  debug_build :: bool
  configuration :: engine_configuration

datatype error = out_of_range | runtime_error | invalid_argument | assertion_failed

subsection \<open>Node accessors that live in program_node.h\<close>

text \<open>
  Modelled from the spec: \<open>program_node::is_input\<close> is declared in program_node.h,
  which is not among the sources. The spec's invariant 3 (every id in \<open>inputs\<close> has zero
  dependencies) and \<open>replace\<close>, which pushes the replacement to \<open>inputs\<close> after it has
  taken over the dependencies, fix it as "has no dependency".
\<close>

definition is_input :: "'v program_node \<Rightarrow> bool" where
  "is_input n = (dependencies n = [])"

text \<open>
  Modelled from the spec: \<open>program::is_debug_build\<close> is declared in program.hpp, which
  is not among the sources; the spec speaks of "debug mode" as a property of the build,
  kept here as a flag of the program.
\<close>

definition is_debug_build :: "'v program \<Rightarrow> bool" where
  "is_debug_build p = debug_build p"

text \<open>
  Modelled from the spec: \<open>nodes_ordering\<close> (section 4.4) is declared in program.hpp,
  which is not among the sources. It is a sequence of nodes with lookup by node;
  \<open>erase(n)\<close> takes the node out of the sequence.
\<close>

definition po_erase :: "node_ptr \<Rightarrow> node_ptr list \<Rightarrow> node_ptr list" where
  "po_erase n po = remove1 n po"

subsection \<open>Structural operations\<close>

text \<open>program::add_connection: two \<open>push_back\<close>s, no check and no \<open>throw\<close>.\<close>

definition add_connection :: "node_ptr \<Rightarrow> node_ptr \<Rightarrow> 'v program \<Rightarrow> 'v program" where
  "add_connection prev next p =
     (let ns1 = (nodes p)(prev := (nodes p prev)\<lparr>users := users (nodes p prev) @ [next]\<rparr>);
          ns2 = ns1(next := (ns1 next)\<lparr>dependencies := dependencies (ns1 next) @ [prev]\<rparr>)
      in p\<lparr>nodes := ns2\<rparr>)"

text \<open>
  program::remove_connection: \<open>std::list::remove\<close> and the erase-remove idiom both take
  out every occurrence.
\<close>

definition remove_connection :: "node_ptr \<Rightarrow> node_ptr \<Rightarrow> 'v program \<Rightarrow> 'v program" where
  "remove_connection prev next p =
     (let ns1 = (nodes p)(prev := (nodes p prev)\<lparr>users := removeAll next (users (nodes p prev))\<rparr>);
          ns2 = ns1(next := (ns1 next)\<lparr>dependencies := removeAll prev (dependencies (ns1 next))\<rparr>)
      in p\<lparr>nodes := ns2\<rparr>)"

text \<open>
  program::swap_names: \<open>nodes_map.at\<close> throws \<open>std::out_of_range\<close> for a missing key;
  both lookups are made before anything is swapped. Then the two map slots exchange
  their pointers and the two descriptors exchange their ids.
\<close>

definition swap_names :: "node_ptr \<Rightarrow> node_ptr \<Rightarrow> 'v program \<Rightarrow> error + 'v program" where
  "swap_names node1 node2 p =
     (let id1 = node_id (nodes p node1); id2 = node_id (nodes p node2) in
      case (nodes_map p id1, nodes_map p id2) of
        (Some ptr1, Some ptr2) \<Rightarrow>
          (let m1 = (nodes_map p)(id1 \<mapsto> ptr2);
               m2 = m1(id2 \<mapsto> ptr1);
               ns1 = (nodes p)(node1 := (nodes p node1)\<lparr>node_id := id2\<rparr>);
               ns2 = ns1(node2 := (ns1 node2)\<lparr>node_id := id1\<rparr>)
           in Inr (p\<lparr>nodes_map := m2, nodes := ns2\<rparr>))
      | _ \<Rightarrow> Inl out_of_range)"

text \<open>
  program::remove_if_dangling. The two early returns give \<open>false\<close>; the removal is
  guarded by \<open>!node.is_output() || is_debug_build()\<close>; the final \<open>return true\<close> stands
  after the guarded block.
\<close>

definition remove_if_dangling :: "node_ptr \<Rightarrow> 'v program \<Rightarrow> bool \<times> 'v program" where
  "remove_if_dangling node p =
     (let n = nodes p node in
      if users n \<noteq> [] then (False, p)
      else if dependencies n \<noteq> [] then (False, p)
      else if \<not> is_output n \<or> is_debug_build p then
        (let p1 = (if is_input n then p\<lparr>inputs := removeAll node (inputs p)\<rparr> else p);
             p2 = (if node \<in> set (processing_order p1)
                   then p1\<lparr>processing_order := po_erase node (processing_order p1)\<rparr> else p1);
             p3 = p2\<lparr>optimized_out := optimized_out p2 @ [node_id n]\<rparr>;
             p4 = p3\<lparr>nodes_map := (nodes_map p3)(node_id n := None)\<rparr>
         in (True, p4))
      else (True, p))"

text \<open>
  Modelled from the spec: the non-const \<open>program_node::get_output_layout\<close> is defined in
  program_node.cpp, which is not among the sources. For a valid layout it yields the
  stored \<open>output_layout\<close> and changes nothing. For a layout that is not valid the
  primitive's layout inference runs first (section 4.2); that is the parameter
  \<open>calc_layout\<close>, which gives the layout and the program with whatever it stored.
\<close>

definition get_output_layout ::
    "(node_ptr \<Rightarrow> 'v program \<Rightarrow> layout \<times> 'v program) \<Rightarrow> node_ptr \<Rightarrow> 'v program
       \<Rightarrow> layout \<times> 'v program" where
  "get_output_layout calc_layout node p =
     (if valid_output_layout (nodes p node) then (output_layout (nodes p node), p)
      else calc_layout node p)"

text \<open>
  Modelled from the spec: \<open>nodes_ordering::insert(before, n)\<close> (section 4.4, declared in
  program.hpp, not among the sources) puts \<open>n\<close> in front of \<open>before\<close>. The position of
  \<open>before\<close> comes from the lookup by node; for a node that is not in the sequence the
  lookup fails, as \<open>nodes_map.at\<close> does for a missing id.
\<close>

fun insert_before :: "node_ptr \<Rightarrow> node_ptr \<Rightarrow> node_ptr list \<Rightarrow> node_ptr list" where
  "insert_before key n [] = []"
| "insert_before key n (x # xs) = (if x = key then n # x # xs else x # insert_before key n xs)"

definition po_insert :: "node_ptr \<Rightarrow> node_ptr \<Rightarrow> node_ptr list \<Rightarrow> error + node_ptr list" where
  "po_insert key n po = (if key \<in> set po then Inr (insert_before key n po) else Inl out_of_range)"

text \<open>
  program::rename. Both throws come before any change. A node whose id is not a key of
  the id-map is silently left alone.
\<close>

definition rename :: "node_ptr \<Rightarrow> primitive_id \<Rightarrow> 'v program \<Rightarrow> error + 'v program" where
  "rename node new_id p =
     (if nodes_map p new_id \<noteq> None then Inl runtime_error
      else if is_output (nodes p node) then Inl invalid_argument
      else case nodes_map p (node_id (nodes p node)) of
             None \<Rightarrow> Inr p
           | Some node_ptr \<Rightarrow>
               Inr (p\<lparr>nodes_map := ((nodes_map p)(new_id \<mapsto> node_ptr))(node_id (nodes p node) := None),
                      nodes := (nodes p)(node := (nodes p node)\<lparr>node_id := new_id\<rparr>)\<rparr>))"

text \<open>
  program::replace, first loop ("copy old's dependencies"): while \<open>old_node\<close> has a
  dependency, connect the front one to \<open>new_node\<close> and disconnect it from \<open>old_node\<close>.
\<close>

function replace_copy_deps :: "node_ptr \<Rightarrow> node_ptr \<Rightarrow> 'v program \<Rightarrow> 'v program" where
  "replace_copy_deps old_node new_node p =
     (if dependencies (nodes p old_node) = [] then p
      else replace_copy_deps old_node new_node
             (remove_connection (hd (dependencies (nodes p old_node))) old_node
                (add_connection (hd (dependencies (nodes p old_node))) new_node p)))"
  by pat_completeness auto
termination
proof (relation "measure (\<lambda>(old_node, new_node, p). length (dependencies (nodes p old_node)))")
  show "wf (measure (\<lambda>(old_node, new_node, p). length (dependencies (nodes p old_node))))"
    by simp
next
  fix old_node new_node :: node_ptr and p :: "'v program"
  assume ne: "dependencies (nodes p old_node) \<noteq> []"
  then obtain d ds where ds: "dependencies (nodes p old_node) = d # ds"
    by (cases "dependencies (nodes p old_node)") auto
  have "length (removeAll d (d # ds)) < length (d # ds)"
    and "length (removeAll d ((d # ds) @ [d])) < length (d # ds)"
    using length_removeAll_less_eq [of d ds] by (simp_all add: less_Suc_eq_le)
  then have "length (dependencies (nodes (remove_connection d old_node
                (add_connection d new_node p)) old_node)) < length (d # ds)"
    using ds by (auto simp: remove_connection_def add_connection_def Let_def)
  then show "((old_node, new_node,
               remove_connection (hd (dependencies (nodes p old_node))) old_node
                 (add_connection (hd (dependencies (nodes p old_node))) new_node p)),
              (old_node, new_node, p))
             \<in> measure (\<lambda>(old_node, new_node, p). length (dependencies (nodes p old_node)))"
    using ds by simp
qed

declare replace_copy_deps.simps [simp del]

text \<open>
  program::replace, second loop ("append users"): the user is pushed to \<open>new_node.users\<close>
  and the first entry of its dependencies that points to \<open>old_node\<close> is redirected.
\<close>

fun replace_first :: "node_ptr \<Rightarrow> node_ptr \<Rightarrow> node_ptr list \<Rightarrow> node_ptr list" where
  "replace_first a b [] = []"
| "replace_first a b (x # xs) = (if x = a then b # xs else x # replace_first a b xs)"

definition replace_move_user :: "node_ptr \<Rightarrow> node_ptr \<Rightarrow> 'v program \<Rightarrow> node_ptr \<Rightarrow> 'v program" where
  "replace_move_user old_node new_node p user =
     (let ns1 = (nodes p)(new_node := (nodes p new_node)\<lparr>users := users (nodes p new_node) @ [user]\<rparr>);
          ns2 = ns1(user := (ns1 user)\<lparr>dependencies :=
                   replace_first old_node new_node (dependencies (ns1 user))\<rparr>)
      in p\<lparr>nodes := ns2\<rparr>)"

text \<open>
  program::replace, in the order of the code. First the edges: the layout and its
  validity flag are copied, the two loops run, and \<open>old_node.users\<close> is cleared. The
  user loop runs over \<open>old_node.users\<close> as it stands when the loop starts (the loop body
  does not write to that list, unless \<open>new_node\<close> is \<open>old_node\<close>, and then the list is
  empty here).
\<close>

definition replace_take_over ::
    "(node_ptr \<Rightarrow> 'v program \<Rightarrow> layout \<times> 'v program) \<Rightarrow> node_ptr \<Rightarrow> node_ptr \<Rightarrow> 'v program
       \<Rightarrow> 'v program" where
  "replace_take_over calc_layout old_node new_node p =
     (let (l, p0) = get_output_layout calc_layout old_node p;
          p1 = p0\<lparr>nodes := (nodes p0)(new_node := (nodes p0 new_node)\<lparr>output_layout := l\<rparr>)\<rparr>;
          p2 = p1\<lparr>nodes := (nodes p1)(new_node := (nodes p1 new_node)
                  \<lparr>valid_output_layout := valid_output_layout (nodes p1 old_node)\<rparr>)\<rparr>;
          p3 = replace_copy_deps old_node new_node p2;
          p4 = foldl (replace_move_user old_node new_node) p3 (users (nodes p3 old_node))
      in p4\<lparr>nodes := (nodes p4)(old_node := (nodes p4 old_node)\<lparr>users := []\<rparr>)\<rparr>)"

text \<open>
  Then the node's state ("copy node's state"): the output mark is taken off \<open>old_node\<close>,
  the input list is updated, and the flags and origin names are copied. The result says
  whether \<open>old_node\<close> was an output.
\<close>

definition replace_copy_state :: "node_ptr \<Rightarrow> node_ptr \<Rightarrow> 'v program \<Rightarrow> bool \<times> 'v program" where
  "replace_copy_state old_node new_node p5 =
     (let old_was_output = is_output (nodes p5 old_node);
          p6 = (if old_was_output
                then p5\<lparr>nodes := (nodes p5)(old_node := (nodes p5 old_node)\<lparr>is_output := False\<rparr>),
                        outputs := removeAll old_node (outputs p5)\<rparr>
                else p5);
          p7 = (if is_input (nodes p6 new_node) then p6\<lparr>inputs := inputs p6 @ [new_node]\<rparr> else p6);
          p8 = (if is_input (nodes p7 old_node)
                then p7\<lparr>inputs := removeAll old_node (inputs p7)\<rparr> else p7);
          old = nodes p8 old_node
      in (old_was_output,
          p8\<lparr>nodes := (nodes p8)(new_node := (nodes p8 new_node)
                \<lparr>is_constant := is_constant old, data_flow := data_flow old,
                 user_mark := user_mark old, origin_op_name := origin_op_name old,
                 origin_op_type_name := origin_op_type_name old\<rparr>)\<rparr>))"

text \<open>
  Last the bookkeeping: the processing order, the id-map, the rename, and the output
  mark for \<open>new_node\<close>. An exception leaves the program as it is at the throw, so a
  failure carries that program.
\<close>

definition replace_finish ::
    "primitive_id \<Rightarrow> bool \<Rightarrow> node_ptr \<Rightarrow> node_ptr \<Rightarrow> 'v program
       \<Rightarrow> (error \<times> 'v program) + 'v program" where
  "replace_finish ident old_was_output old_node new_node p9 =
     (case po_insert old_node new_node (processing_order p9) of
        Inl e \<Rightarrow> Inl (e, p9)
      | Inr po \<Rightarrow>
          (let p10 = p9\<lparr>processing_order := po\<rparr>;
               p11 = (if old_node \<in> set (processing_order p10)
                      then p10\<lparr>processing_order := po_erase old_node (processing_order p10)\<rparr>
                      else p10);
               p12 = p11\<lparr>nodes_map := (nodes_map p11)(ident := None)\<rparr>
           in case rename new_node ident p12 of
                Inl e \<Rightarrow> Inl (e, p12)
              | Inr p13 \<Rightarrow>
                  Inr (if old_was_output
                       then p13\<lparr>nodes := (nodes p13)(new_node := (nodes p13 new_node)\<lparr>is_output := True\<rparr>),
                                outputs := outputs p13 @ [new_node]\<rparr>
                       else p13)))"

definition replace ::
    "(node_ptr \<Rightarrow> 'v program \<Rightarrow> layout \<times> 'v program) \<Rightarrow> node_ptr \<Rightarrow> node_ptr \<Rightarrow> 'v program
       \<Rightarrow> (error \<times> 'v program) + 'v program" where
  "replace calc_layout old_node new_node p =
     (if dependencies (nodes p new_node) \<noteq> [] \<or> users (nodes p new_node) \<noteq> []
      then Inl (invalid_argument, p)
      else if is_output (nodes p new_node) then Inl (invalid_argument, p)
      else
        (let ident = node_id (nodes p old_node);
             p5 = replace_take_over calc_layout old_node new_node p;
             (old_was_output, p9) = replace_copy_state old_node new_node p5
         in replace_finish ident old_was_output old_node new_node p9))"

text \<open>
  What the first loop of \<open>replace\<close> leaves of a dependency list: each node once, in the
  order of first occurrence.
\<close>

function dedup_first :: "'a list \<Rightarrow> 'a list" where
  "dedup_first [] = []"
| "dedup_first (x # xs) = x # dedup_first (removeAll x xs)"
  by pat_completeness auto
termination
  by (relation "measure length") (simp_all add: less_Suc_eq_le length_removeAll_less_eq)

text \<open>One iteration of the first loop of \<open>replace\<close>.\<close>

definition copy_step :: "node_ptr \<Rightarrow> node_ptr \<Rightarrow> node_ptr \<Rightarrow> 'v program \<Rightarrow> 'v program" where
  "copy_step d old_node new_node p = remove_connection d old_node (add_connection d new_node p)"

text \<open>
  program::add_optimized_primitive_info. In every entry of \<open>optimized\<close> whose list holds
  the id, \<open>std::find_if\<close> finds the first occurrence, \<open>erase\<close> removes that one
  element and \<open>insert\<close> appends the replacement ids at the end; then the new entry is
  appended. Both arguments are passed by value.
\<close>

definition add_optimized_primitive_info ::
    "primitive_id \<Rightarrow> primitive_id list \<Rightarrow> 'v program \<Rightarrow> 'v program" where
  "add_optimized_primitive_info optimized_primitive_id replaced_with_ids p =
     p\<lparr>optimized :=
         map (\<lambda>e. if optimized_primitive_id \<in> set (snd e)
                  then (fst e, remove1 optimized_primitive_id (snd e) @ replaced_with_ids)
                  else e) (optimized p)
         @ [(optimized_primitive_id, replaced_with_ids)]\<rparr>"

text \<open>
  The property the log is meant to keep: no surviving id of any entry is itself the key
  of an entry.
\<close>

definition log_closed :: "(primitive_id \<times> primitive_id list) list \<Rightarrow> bool" where
  "log_closed lg = list_all (\<lambda>e. list_all (\<lambda>s. s \<notin> set (map fst lg)) (snd e)) lg"

text \<open>
  program::prepare_memory_dependencies. \<open>apply_opt_pass\<close> hands a pass to the pass
  manager, which is not among the sources: it is a parameter here, a state transformer
  that may fail, given the pass to run.
\<close>

datatype opt_pass =
  basic_memory_dependencies | skipped_branch_memory_dependencies | oooq_memory_dependencies

definition prepare_memory_dependencies ::
    "(opt_pass \<Rightarrow> 'v program \<Rightarrow> error + 'v program) \<Rightarrow> 'v program \<Rightarrow> error + 'v program" where
  "prepare_memory_dependencies apply_opt_pass p =
     (if \<not> use_memory_pool (configuration p) then Inr p
      else case apply_opt_pass basic_memory_dependencies p of
             Inl e \<Rightarrow> Inl e
           | Inr p1 \<Rightarrow>
               (case apply_opt_pass skipped_branch_memory_dependencies p1 of
                  Inl e \<Rightarrow> Inl e
                | Inr p2 \<Rightarrow> apply_opt_pass oooq_memory_dependencies p2))"

text \<open>Running one fallible step after another: the second runs on the first's result.\<close>

definition and_then :: "error + 'a \<Rightarrow> ('a \<Rightarrow> error + 'b) \<Rightarrow> error + 'b" where
  "and_then r f = (case r of Inl e \<Rightarrow> Inl e | Inr x \<Rightarrow> f x)"

text \<open>The edges of the graph, read from the \<open>users\<close> lists, and the paths along them.\<close>

definition has_edge :: "'v program \<Rightarrow> node_ptr \<Rightarrow> node_ptr \<Rightarrow> bool" where
  "has_edge p a b = (b \<in> set (users (nodes p a)))"

inductive reaches :: "'v program \<Rightarrow> node_ptr \<Rightarrow> node_ptr \<Rightarrow> bool" for p where
  step: "has_edge p a b \<Longrightarrow> reaches p a b"
| trans: "has_edge p a b \<Longrightarrow> reaches p b c \<Longrightarrow> reaches p a c"

subsection \<open>Inference precision\<close>

text \<open>
  Modelled from the spec: the const overload of \<open>program_node::get_output_layout\<close> is
  defined in program_node.cpp, which is not among the sources. The spec's data model
  gives a node an \<open>output_layout\<close> with a \<open>valid\<close> flag: for a valid layout the accessor
  yields the stored one. What it does for a layout that is not valid is said neither by
  the sources nor by the spec; it is the parameter \<open>invalid_read\<close> (which may fail or
  yield a layout).
\<close>

definition get_output_layout_const ::
    "('v program_node \<Rightarrow> error + layout) \<Rightarrow> 'v program_node \<Rightarrow> error + layout" where
  "get_output_layout_const invalid_read n =
     (if valid_output_layout n then Inr (output_layout n) else invalid_read n)"

definition is_conv_like :: "'v primitive_kind \<Rightarrow> bool" where
  "is_conv_like k =
     (case k of convolution _ \<Rightarrow> True | deconvolution _ \<Rightarrow> True
              | fully_connected \<Rightarrow> True | gemm \<Rightarrow> True | _ \<Rightarrow> False)"

definition is_quantize :: "'v primitive_kind \<Rightarrow> bool" where
  "is_quantize k = (case k of quantize _ \<Rightarrow> True | _ \<Rightarrow> False)"

text \<open>
  The per-kind rules at the end of program::get\_inference\_precision, reached only
  with valid layouts. \<open>data_type_traits::max_type\<close> and \<open>is_quantized\<close> are declared in
  layout.hpp, which is not among the sources: they are parameters. The C++ asserts that
  \<open>input_dts\<close> is not empty before it reads \<open>input_dts[0]\<close>.
\<close>

definition per_kind_precision ::
    "(data_types \<Rightarrow> data_types \<Rightarrow> data_types) \<Rightarrow> (data_types \<Rightarrow> bool) \<Rightarrow>
     'v primitive_kind \<Rightarrow> data_types list \<Rightarrow> data_types \<Rightarrow> error + data_types" where
  "per_kind_precision max_type is_quantized k input_dts output_dt =
     (case input_dts of
        [] \<Rightarrow> Inl assertion_failed
      | dt0 # rest \<Rightarrow>
          if k = reorder then Inr (max_type dt0 output_dt)
          else if is_quantize k then
            (if is_quantized output_dt then Inr output_dt else Inr (max_type dt0 output_dt))
          else if k = eltwise then Inr (foldl max_type dt0 rest)
          else if is_conv_like k then
            (case rest of
               [] \<Rightarrow> Inl runtime_error
             | dt1 # _ \<Rightarrow>
                 if is_quantized dt0 \<and> is_quantized dt1 then Inr dt0
                 else Inr (max_type dt0 dt1))
          else Inr dt0)"

text \<open>
  program::get\_inference\_precision. The node is a const reference, so its own layout
  is read through the const accessor; a dependency's layout is read only after
  \<open>is_valid_output_layout\<close> has answered true for it.
\<close>

definition get_inference_precision ::
    "('v program_node \<Rightarrow> error + layout) \<Rightarrow>
     (data_types \<Rightarrow> data_types \<Rightarrow> data_types) \<Rightarrow> (data_types \<Rightarrow> bool) \<Rightarrow>
     'v program \<Rightarrow> node_ptr \<Rightarrow> error + data_types" where
  "get_inference_precision invalid_read max_type is_quantized p node =
     (let n = nodes p node in
      if is_input n then
        (case get_output_layout_const invalid_read n of
           Inl e \<Rightarrow> Inl e
         | Inr l \<Rightarrow> Inr (data_type l))
      else
        (let input_dts = map (\<lambda>dep. data_type (output_layout (nodes p dep)))
                           (filter (\<lambda>dep. valid_output_layout (nodes p dep)) (dependencies n))
         in if length input_dts \<noteq> length (dependencies n) \<or> \<not> valid_output_layout n
            then Inr f32
            else (case get_output_layout_const invalid_read n of
                    Inl e \<Rightarrow> Inl e
                  | Inr l \<Rightarrow> per_kind_precision max_type is_quantized (kind n) input_dts
                             (data_type l))))"

subsection \<open>The dependency loop of fuse\_nodes\<close>

text \<open>
  The quantize drop decision of program::fuse\_nodes, as the code computes it:
  \<open>can_drop_input\<close> starts false and is or-ed with one test per group of indices.
\<close>

definition out_range_usage :: "('v::ord) quantize_node \<Rightarrow> bool" where
  "out_range_usage q = (per_tensor_output_range q \<and> output_lo_val q < output_hi_val q)"

definition can_drop_input :: "nat \<Rightarrow> ('v::ord) quantize_node \<Rightarrow> bool" where
  "can_drop_input i q =
     ((((((False
       \<or> ((i = 1 \<or> i = 2) \<and> (out_range_usage q \<or> (\<not> out_range_usage q \<and> \<not> need_clamp q))))
       \<or> (i = 3 \<or> i = 4))
       \<or> (i = 5 \<and> per_tensor_input_scale q))
       \<or> (i = 6 \<and> (\<not> need_pre_shift q \<or> per_tensor_input_shift q)))
       \<or> (i = 7 \<and> (\<not> need_post_scale q \<or> per_tensor_output_scale q)))
       \<or> (i = 8 \<and> (\<not> need_post_shift q \<or> per_tensor_output_shift q)))"

text \<open>
  The drop table as section 4.10.1 of the spec words it, index by index; an index the
  table does not name is not dropped.
\<close>

definition quantize_drop_table :: "nat \<Rightarrow> ('v::ord) quantize_node \<Rightarrow> bool" where
  "quantize_drop_table i q =
     (if i = 1 \<or> i = 2 then out_range_usage q \<or> \<not> need_clamp q
      else if i = 3 \<or> i = 4 then True
      else if i = 5 then per_tensor_input_scale q
      else if i = 6 then per_tensor_input_shift q \<or> \<not> need_pre_shift q
      else if i = 7 then per_tensor_output_scale q \<or> \<not> need_post_scale q
      else if i = 8 then per_tensor_output_shift q \<or> \<not> need_post_shift q
      else False)"

text \<open>
  The state the loop "Add new dependencies to the fused\_node" of program::fuse\_nodes
  works on: the program, the \<open>deps\<close> list of the local fused-primitive descriptor and
  the counter \<open>deps_idx\<close>.
\<close>

record 'v fuse_state =
  prog :: "'v program"
  local_desc_deps :: "(primitive_id \<times> nat) list"
  deps_idx :: nat

text \<open>Whether the loop body skips peer input \<open>i\<close> as a droppable quantize input.\<close>

definition drops_input :: "('v::ord) program \<Rightarrow> node_ptr \<Rightarrow> nat \<Rightarrow> bool" where
  "drops_input p peer_node i =
     (case kind (nodes p peer_node) of
        quantize q_node \<Rightarrow> scale_shift_opt q_node \<and> can_drop_input i q_node
      | _ \<Rightarrow> False)"

text \<open>One run of the loop body, for an index \<open>i\<close> below the number of peer inputs.\<close>

definition fuse_nodes_step ::
    "node_ptr \<Rightarrow> node_ptr \<Rightarrow> nat \<Rightarrow> ('v::ord) fuse_state \<Rightarrow> 'v fuse_state" where
  "fuse_nodes_step fused_node peer_node i s =
     (let p = prog s; dep = dependencies (nodes p peer_node) ! i in
      if node_id (nodes p dep) = node_id (nodes p fused_node)
      then s\<lparr>deps_idx := deps_idx s + 1\<rparr>
      else if drops_input p peer_node i then s
      else
        (let ns1 = (nodes p)(fused_node :=
                     (nodes p fused_node)\<lparr>dependencies := dependencies (nodes p fused_node) @ [dep]\<rparr>);
             ns2 = ns1(dep := (ns1 dep)\<lparr>users := users (ns1 dep) @ [fused_node]\<rparr>)
         in s\<lparr>prog := p\<lparr>nodes := ns2\<rparr>,
              local_desc_deps := local_desc_deps s @ [(node_id (nodes p dep), deps_idx s)],
              deps_idx := deps_idx s + 1\<rparr>))"

text \<open>
  The loop itself. Its bound \<open>peer_node.get_dependencies().size()\<close> is read again before
  every iteration, from the current state, so the loop is not bounded a priori (it
  would not end if the peer were the host): not returning is the value \<open>None\<close>.
\<close>

partial_function (option) fuse_nodes_deps_loop ::
    "node_ptr \<Rightarrow> node_ptr \<Rightarrow> nat \<Rightarrow> ('v::ord) fuse_state \<Rightarrow> 'v fuse_state option" where
  "fuse_nodes_deps_loop fused_node peer_node i s =
     (if i < length (dependencies (nodes (prog s) peer_node))
      then fuse_nodes_deps_loop fused_node peer_node (Suc i) (fuse_nodes_step fused_node peer_node i s)
      else Some s)"

text \<open>
  What the claim expects of the loop: the peer inputs, in order, that are neither the
  host itself nor dropped by the table.
\<close>

definition table_drops :: "('v::ord) program \<Rightarrow> node_ptr \<Rightarrow> nat \<Rightarrow> bool" where
  "table_drops p peer_node i =
     (case kind (nodes p peer_node) of
        quantize q \<Rightarrow> scale_shift_opt q \<and> quantize_drop_table i q
      | _ \<Rightarrow> False)"

definition is_host :: "'v program \<Rightarrow> node_ptr \<Rightarrow> node_ptr \<Rightarrow> bool" where
  "is_host p fused_node dep = (node_id (nodes p dep) = node_id (nodes p fused_node))"

definition transferred :: "('v::ord) program \<Rightarrow> node_ptr \<Rightarrow> node_ptr \<Rightarrow> node_ptr list" where
  "transferred p fused_node peer_node =
     map (\<lambda>i. dependencies (nodes p peer_node) ! i)
       (filter (\<lambda>i. \<not> is_host p fused_node (dependencies (nodes p peer_node) ! i)
                   \<and> \<not> table_drops p peer_node i)
          [0 ..< length (dependencies (nodes p peer_node))])"

subsection \<open>Output-size-handling analysis\<close>

text \<open>
  program::analyze\_output\_size\_handling\_need reads, besides the program, code that
  is not among the sources. It is kept as parameters, collected in one record:
  \<^item> the constructors \<open>tensor(sizes, default)\<close> and \<open>tensor(value)\<close> of tensor.hpp;
  \<^item> the shape that \<open>prim_node.input().get_output_layout().get_tensor()\<close> yields for a
    node, and the one that \<open>prim_node.weights(0).get_output_layout().get_tensor()\<close>
    yields (the typed accessors of the \<open>*_inst.h\<close> headers and the layout accessor of
    program\_node.cpp); either may throw;
  \<^item> the two calculators of sliding\_window\_utils.hpp, which may throw.
  The analysis returns a flag; that the layout accessor may store a layout it had to
  compute is left out of the model.
\<close>

datatype swor_mode = all | exceed_once | exceed_once_data | any_mode

record 'v analysis_env =
  tensor_of_sizes :: "int list \<Rightarrow> int \<Rightarrow> tensor"
  tensor_of_value :: "int \<Rightarrow> tensor"
  input_size_of :: "'v program \<Rightarrow> node_ptr \<Rightarrow> error + tensor"
  filter_size_of :: "'v program \<Rightarrow> node_ptr \<Rightarrow> error + tensor"
  calc_sliding_window_output_range ::
    "swor_mode \<Rightarrow> tensor \<Rightarrow> tensor \<Rightarrow> int list \<Rightarrow> nat list \<Rightarrow> nat list \<Rightarrow> bool \<Rightarrow> int
       \<Rightarrow> error + tensor"
  calc_sliding_window_needed_input_range ::
    "tensor \<Rightarrow> tensor \<Rightarrow> int list \<Rightarrow> nat list \<Rightarrow> nat list \<Rightarrow> bool \<Rightarrow> int \<Rightarrow> error + tensor"

text \<open>
  \<open>tensor specified_output_range({0, 0, output_size.spatial[0], output_size.spatial[1],
  output_size.spatial[2]}, 1)\<close>, the same in all four branches.
\<close>

definition specified_output_range :: "'v analysis_env \<Rightarrow> tensor \<Rightarrow> tensor" where
  "specified_output_range env output_size =
     tensor_of_sizes env
       [0, 0, spatial output_size ! 0, spatial output_size ! 1, spatial output_size ! 2] 1"

text \<open>
  The pooling branch builds the window \<open>size\<close>: a tensor of ones whose spatial sizes
  are overwritten, in reverse order, by the primitive's \<open>size\<close>.
\<close>

definition pooling_window :: "'v analysis_env \<Rightarrow> nat list \<Rightarrow> tensor" where
  "pooling_window env sz =
     foldl (\<lambda>t i. t\<lparr>spatial := (spatial t)[i := int (sz ! (length sz - i - 1))]\<rparr>)
       (tensor_of_value env 1) [0 ..< length sz]"

text \<open>
  The range the calculators give for a node of one of the four kinds, with the
  arguments of the matching branch; the shapes are read filter first, as in the code.
\<close>

definition conv_calc_range ::
    "'v analysis_env \<Rightarrow> 'v program \<Rightarrow> node_ptr \<Rightarrow> int list \<Rightarrow> nat list \<Rightarrow> nat list
       \<Rightarrow> error + tensor" where
  "conv_calc_range env p node pad stride dilation =
     (case filter_size_of env p node of
        Inl e \<Rightarrow> Inl e
      | Inr filter_size \<Rightarrow>
          (case input_size_of env p node of
             Inl e \<Rightarrow> Inl e
           | Inr input_size \<Rightarrow>
               calc_sliding_window_output_range env all input_size filter_size pad stride
                 dilation True 1))"

definition deconv_calc_range ::
    "'v analysis_env \<Rightarrow> 'v program \<Rightarrow> node_ptr \<Rightarrow> int list \<Rightarrow> nat list \<Rightarrow> error + tensor" where
  "deconv_calc_range env p node pad stride =
     (case filter_size_of env p node of
        Inl e \<Rightarrow> Inl e
      | Inr filter_size \<Rightarrow>
          (case input_size_of env p node of
             Inl e \<Rightarrow> Inl e
           | Inr input_size \<Rightarrow>
               calc_sliding_window_needed_input_range env input_size filter_size pad stride
                 (replicate (length stride) 1) True 1))"

definition pooling_calc_range ::
    "'v analysis_env \<Rightarrow> 'v program \<Rightarrow> node_ptr \<Rightarrow> nat list \<Rightarrow> nat list \<Rightarrow> nat list
       \<Rightarrow> error + tensor" where
  "pooling_calc_range env p node sz pad stride =
     (case input_size_of env p node of
        Inl e \<Rightarrow> Inl e
      | Inr input_size \<Rightarrow>
          calc_sliding_window_output_range env exceed_once_data input_size
            (pooling_window env sz) (map int pad) stride (replicate (length stride) 1) True 1)"

text \<open>
  The loop body: whether this node sets \<open>handling_needed\<close>. \<open>continue\<close> and a node of
  any other kind give false. The binary-convolution branch has no \<open>with_output_size\<close>
  test: its descriptor has no such field, it always carries an \<open>output_size\<close>.
\<close>

definition differs :: "tensor \<Rightarrow> error + tensor \<Rightarrow> error + bool" where
  "differs specified calc =
     (case calc of Inl e \<Rightarrow> Inl e | Inr calc_output_range \<Rightarrow> Inr (specified \<noteq> calc_output_range))"

definition node_check :: "'v analysis_env \<Rightarrow> 'v program \<Rightarrow> node_ptr \<Rightarrow> error + bool" where
  "node_check env p node =
     (case kind (nodes p node) of
        convolution prim \<Rightarrow>
          if \<not> conv_with_output_size prim then Inr False
          else differs (specified_output_range env (conv_output_size prim))
                 (conv_calc_range env p node (conv_pad prim) (conv_stride prim) (conv_dilation prim))
      | binary_convolution prim \<Rightarrow>
          differs (specified_output_range env (bconv_output_size prim))
            (conv_calc_range env p node (bconv_pad prim) (bconv_stride prim) (bconv_dilation prim))
      | deconvolution prim \<Rightarrow>
          if \<not> deconv_with_output_size prim then Inr False
          else differs (specified_output_range env (deconv_output_size prim))
                 (deconv_calc_range env p node (deconv_pad prim) (deconv_stride prim))
      | pooling prim \<Rightarrow>
          if \<not> pool_with_output_size prim then Inr False
          else differs (specified_output_range env (pool_output_size prim))
                 (pooling_calc_range env p node (pool_size prim) (pool_pad prim) (pool_stride prim))
      | _ \<Rightarrow> Inr False)"

text \<open>The loop over the processing order; an exception of the body ends it.\<close>

fun analyze_loop ::
    "'v analysis_env \<Rightarrow> 'v program \<Rightarrow> node_ptr list \<Rightarrow> bool \<Rightarrow> error + bool" where
  "analyze_loop env p [] handling_needed = Inr handling_needed"
| "analyze_loop env p (node # rest) handling_needed =
     (case node_check env p node of
        Inl e \<Rightarrow> Inl e
      | Inr m \<Rightarrow> analyze_loop env p rest (if m then True else handling_needed))"

definition analyze_output_size_handling_need :: "'v analysis_env \<Rightarrow> 'v program \<Rightarrow> error + bool" where
  "analyze_output_size_handling_need env p = analyze_loop env p (processing_order p) False"

text \<open>
  The claim's side, stated on its own, with none of the definitions of the loop body
  above. A descriptor declares a desired output size when its \<open>with_output_size\<close>
  flag is set; a binary convolution's descriptor always does. The declared range is the
  tensor of the three spatial sizes it declares, after two zeros, with default 1.
\<close>

definition declared_output_size :: "'v primitive_kind \<Rightarrow> tensor option" where
  "declared_output_size k =
     (case k of
        convolution prim \<Rightarrow>
          if conv_with_output_size prim then Some (conv_output_size prim) else None
      | binary_convolution prim \<Rightarrow> Some (bconv_output_size prim)
      | deconvolution prim \<Rightarrow>
          if deconv_with_output_size prim then Some (deconv_output_size prim) else None
      | pooling prim \<Rightarrow>
          if pool_with_output_size prim then Some (pool_output_size prim) else None
      | _ \<Rightarrow> None)"

definition declared_range :: "'v analysis_env \<Rightarrow> tensor \<Rightarrow> tensor" where
  "declared_range env output_size =
     tensor_of_sizes env
       (0 # 0 # map (\<lambda>i. spatial output_size ! i) [0, 1, 2]) 1"

text \<open>
  The current input and filter shapes of a node, when both can be read; the filter of a
  pooling is its window, the tensor of ones whose first spatial sizes are the
  descriptor's sizes, last first.
\<close>

definition current_shapes ::
    "'v analysis_env \<Rightarrow> 'v program \<Rightarrow> node_ptr \<Rightarrow> (tensor \<times> tensor) option" where
  "current_shapes env p node =
     (case (input_size_of env p node, filter_size_of env p node) of
        (Inr input_size, Inr filter_size) \<Rightarrow> Some (input_size, filter_size)
      | _ \<Rightarrow> None)"

definition window_shape :: "'v analysis_env \<Rightarrow> nat list \<Rightarrow> tensor" where
  "window_shape env sz =
     (let ones = tensor_of_value env 1
      in ones\<lparr>spatial :=
                map (\<lambda>i. if i < length sz then int (rev sz ! i) else spatial ones ! i)
                  [0 ..< length (spatial ones)]\<rparr>)"

definition pooling_shapes ::
    "'v analysis_env \<Rightarrow> 'v program \<Rightarrow> node_ptr \<Rightarrow> nat list \<Rightarrow> (tensor \<times> tensor) option" where
  "pooling_shapes env p node sz =
     (case input_size_of env p node of
        Inr input_size \<Rightarrow> Some (input_size, window_shape env sz)
      | Inl e \<Rightarrow> None)"

text \<open>
  The range computed by the sliding-window calculators: the output range in mode
  \<open>all\<close> for a convolution and a binary convolution, the needed input range for a
  deconvolution, the output range in mode \<open>exceed_once_data\<close> for a pooling; the last
  two without dilation; all with symmetric padding and degenerate value 1.
\<close>

definition calculated :: "error + tensor \<Rightarrow> tensor option" where
  "calculated r = (case r of Inr t \<Rightarrow> Some t | Inl e \<Rightarrow> None)"

definition computed_range :: "'v analysis_env \<Rightarrow> 'v program \<Rightarrow> node_ptr \<Rightarrow> tensor option" where
  "computed_range env p node =
     (case kind (nodes p node) of
        convolution prim \<Rightarrow>
          Option.bind (current_shapes env p node)
            (\<lambda>(input_size, filter_size).
               calculated (calc_sliding_window_output_range env all input_size filter_size
                             (conv_pad prim) (conv_stride prim) (conv_dilation prim) True 1))
      | binary_convolution prim \<Rightarrow>
          Option.bind (current_shapes env p node)
            (\<lambda>(input_size, filter_size).
               calculated (calc_sliding_window_output_range env all input_size filter_size
                             (bconv_pad prim) (bconv_stride prim) (bconv_dilation prim) True 1))
      | deconvolution prim \<Rightarrow>
          Option.bind (current_shapes env p node)
            (\<lambda>(input_size, filter_size).
               calculated (calc_sliding_window_needed_input_range env input_size filter_size
                             (deconv_pad prim) (deconv_stride prim)
                             (map (\<lambda>_. 1) (deconv_stride prim)) True 1))
      | pooling prim \<Rightarrow>
          Option.bind (pooling_shapes env p node (pool_size prim))
            (\<lambda>(input_size, window).
               calculated (calc_sliding_window_output_range env exceed_once_data input_size
                             window (map int (pool_pad prim)) (pool_stride prim)
                             (map (\<lambda>_. 1) (pool_stride prim)) True 1))
      | _ \<Rightarrow> None)"

definition size_mismatch :: "'v analysis_env \<Rightarrow> 'v program \<Rightarrow> node_ptr \<Rightarrow> bool" where
  "size_mismatch env p node =
     (case (declared_output_size (kind (nodes p node)), computed_range env p node) of
        (Some output_size, Some r) \<Rightarrow> declared_range env output_size \<noteq> r
      | _ \<Rightarrow> False)"

text \<open>The analysis can answer when no checked node makes an accessor or a calculator throw.\<close>

definition check_succeeds :: "'v analysis_env \<Rightarrow> 'v program \<Rightarrow> node_ptr \<Rightarrow> bool" where
  "check_succeeds env p node = (case node_check env p node of Inl e \<Rightarrow> False | Inr m \<Rightarrow> True)"

subsection \<open>Single-precision arithmetic\<close>

text \<open>
  program::set\_layout\_optimizer\_attributes compares products of \<open>float\<close>s with
  \<open>float\<close> constants. A \<open>float\<close> is an IEEE 754 binary32 number: 24 significant bits,
  every operation rounded to the nearest representable number, ties to the one with an
  even significand. The model keeps a \<open>float\<close> as the real number it stands for and
  rounds after each operation; the exponent range is not bounded (the numbers of this
  file are counts up to \<open>2^64\<close>, their reciprocals and products of both, all within the
  range of normal binary32 numbers), and there are no infinities or NaNs.
\<close>

definition two_to :: "int \<Rightarrow> real" where
  "two_to e = (if 0 \<le> e then 2 ^ nat e else 1 / 2 ^ nat (- e))"

text \<open>The exponent \<open>e\<close> of a positive number: \<open>2^e \<le> x < 2^(e+1)\<close>.\<close>

definition f32_exponent :: "real \<Rightarrow> int" where
  "f32_exponent x = (if 1 \<le> x then bitlen \<lfloor>x\<rfloor> - 1 else - bitlen (\<lceil>1 / x\<rceil> - 1))"

definition round_half_even :: "real \<Rightarrow> int" where
  "round_half_even q =
     (let n = \<lfloor>q\<rfloor>; r = q - of_int n
      in if r < 1 / 2 then n else if 1 / 2 < r then n + 1 else if even n then n else n + 1)"

text \<open>Rounding a non-negative real to binary32: to a multiple of \<open>2^(e-23)\<close>.\<close>

definition to_f32 :: "real \<Rightarrow> real" where
  "to_f32 x =
     (if x \<le> 0 then 0
      else of_int (round_half_even (x / two_to (f32_exponent x - 23)))
             * two_to (f32_exponent x - 23))"

text \<open>
  \<open>const float cond_denom = total_conv_layers > 0 ? 1.0f / static_cast<float>(total_conv_layers)
  : 1.0f\<close>: a conversion and a division, each rounded.
\<close>

definition cond_denom :: "nat \<Rightarrow> real" where
  "cond_denom total_conv_layers =
     (if total_conv_layers > 0 then to_f32 (1 / to_f32 (of_nat total_conv_layers)) else 1)"

text \<open>
  \<open>count * cond_denom\<close> for a \<open>size_t\<close> count: the count is converted to \<open>float\<close> and
  the product is rounded.
\<close>

definition times_cond_denom :: "nat \<Rightarrow> nat \<Rightarrow> real" where
  "times_cond_denom n total_conv_layers = to_f32 (to_f32 (of_nat n) * cond_denom total_conv_layers)"

subsection \<open>Layout optimizer attributes\<close>

text \<open>
  Modelled from the spec: the layout optimizer (layout\_optimizer.h) is not among the
  sources. Section 4.8 says that it maintains the per-format attributes and that it
  counts convolutions. Its state is kept in two parts: the attributes, which
  \<open>set_optimization_attribute\<close> writes, and the rest (format map, counters, forcing),
  whose type is left open. The operations on the rest are parameters, collected in
  \<open>lo_ops\<close>, as is the layout that \<open>get_output_layout()\<close> yields for a node; the two
  format queries are members of the optimizer and get it, with the node they ask about;
  \<open>onednn_in_order\<close> stands for the last block of the function (it is compiled in with
  \<open>ENABLE_ONEDNN_FOR_GPU\<close> and asks the engine for \<open>supports_immad\<close> and an in-order
  queue).
\<close>

datatype optimization_attributes_type =
    splitted_convolution | group_convolution | deformable_convolution | bfyx_only_layer
  | fs_b_yx_fsv32_network | b_fs_zyx_fsv32_network | b_fs_yx_fsv16_network
  | b_fs_zyx_fsv16_network | bs_fs_yx_bsv16_fsv16_network | use_onednn_impls

record 'c layout_optimizer =
  optimization_attributes :: "optimization_attributes_type \<Rightarrow> int"
  lo_state :: 'c

record ('v, 'c) lo_ops =
  set_implementation_forcing :: "'c \<Rightarrow> 'c"
  update_formats_map :: "'v program \<Rightarrow> node_ptr \<Rightarrow> 'c \<Rightarrow> 'c"
  is_format_optimized :: "'c layout_optimizer \<Rightarrow> 'v program \<Rightarrow> node_ptr \<Rightarrow> format \<Rightarrow> bool"
  is_format_supported :: "'c layout_optimizer \<Rightarrow> 'v program \<Rightarrow> node_ptr \<Rightarrow> format \<Rightarrow> bool"
  get_total_conv_count :: "'c \<Rightarrow> nat"
  get_optimized_conv_count :: "'c \<Rightarrow> format \<times> bool \<Rightarrow> nat"
  layout_of :: "'v program \<Rightarrow> node_ptr \<Rightarrow> layout"
  onednn_in_order :: bool

definition set_optimization_attribute ::
    "optimization_attributes_type \<Rightarrow> int \<Rightarrow> 'c layout_optimizer \<Rightarrow> 'c layout_optimizer" where
  "set_optimization_attribute attribute val l =
     l\<lparr>optimization_attributes := (optimization_attributes l)(attribute := val)\<rparr>"

text \<open>
  Modelled from the spec: \<open>program_node::get_dependency\<close> (program\_node.h, not among
  the sources) gives the i-th dependency, the i-th input of the node; asking for an
  input the node does not have is an error.
\<close>

definition get_dependency :: "'v program_node \<Rightarrow> nat \<Rightarrow> error + node_ptr" where
  "get_dependency n idx =
     (if idx < length (dependencies n) then Inr (dependencies n ! idx) else Inl out_of_range)"

text \<open>
  The local variables of the function that the loop updates, with the optimizer. The
  counters are \<open>size_t\<close> in the code and natural numbers here: each is incremented at
  most once per node of the processing order, and the optimizer counts convolutions of
  the program, so none of them reaches \<open>2^63\<close>.
\<close>

record 'c attr_scan =
  lo :: "'c layout_optimizer"
  can_use_fsv16 :: bool
  can_use_bs_fs_yx_bsv16_fsv16 :: bool
  is_quantized_int8_model :: bool
  total_asym_quantized_conv_layers :: nat
  total_dw_conv_layers :: nat
  total_dw_splitted_conv_layers :: nat
  total_1x1_fm_conv_layers :: nat
  total_grouped_conv_layers :: nat
  opt_deconv_layers_b_fs_zyx_fsv16 :: nat
  opt_deconv_layers_b_fs_yx_fsv16 :: nat
  total_crop_layers :: nat

text \<open>
  The loop body, block by block. First block: a convolution. Its steps: the three
  attributes, the depthwise and grouped counters (\<open>ifm\<close> is the input's feature count, cast
  to \<open>uint32_t\<close>), the 1x1 counter, and the format map with the asymmetric counter.
\<close>

definition conv_attributes :: "convolution_prim \<Rightarrow> 'c attr_scan \<Rightarrow> 'c attr_scan" where
  "conv_attributes conv s =
     (let s1 = (if conv_split conv > 1
                then s\<lparr>lo := set_optimization_attribute splitted_convolution 1 (lo s)\<rparr> else s);
          s2 = (if conv_groups conv > 1
                then s1\<lparr>lo := set_optimization_attribute group_convolution 1 (lo s1)\<rparr> else s1)
      in if conv_deformable_mode conv
         then s2\<lparr>lo := set_optimization_attribute deformable_convolution 1 (lo s2)\<rparr> else s2)"

definition conv_group_counters :: "convolution_prim \<Rightarrow> nat \<Rightarrow> 'c attr_scan \<Rightarrow> 'c attr_scan" where
  "conv_group_counters conv ifm s =
     (if conv_groups conv = ifm \<and> conv_groups conv \<ge> 16
      then s\<lparr>total_dw_conv_layers := total_dw_conv_layers s + 1\<rparr>
      else if conv_groups conv = ifm \<and> conv_groups conv < 16
      then s\<lparr>total_dw_splitted_conv_layers := total_dw_splitted_conv_layers s + 1\<rparr>
      else if conv_groups conv > 1 \<or> conv_split conv > 1
      then s\<lparr>total_grouped_conv_layers := total_grouped_conv_layers s + 1\<rparr>
      else s)"

definition conv_1x1_counter :: "tensor \<Rightarrow> 'c attr_scan \<Rightarrow> 'c attr_scan" where
  "conv_1x1_counter input_size s =
     (if spatial input_size ! 0 = 1 \<and> spatial input_size ! 1 = 1
      then s\<lparr>total_1x1_fm_conv_layers := total_1x1_fm_conv_layers s + 1\<rparr> else s)"

definition conv_formats ::
    "('v, 'c) lo_ops \<Rightarrow> 'v program \<Rightarrow> node_ptr \<Rightarrow> convolution_prim \<Rightarrow> 'c attr_scan
       \<Rightarrow> 'c attr_scan" where
  "conv_formats ops p node conv s =
     (let s1 = s\<lparr>lo := (lo s)\<lparr>lo_state := update_formats_map ops p node (lo_state (lo s))\<rparr>\<rparr>
      in if conv_weights_zero_points_term conv \<or> conv_activations_zero_points_term conv
         then s1\<lparr>total_asym_quantized_conv_layers := total_asym_quantized_conv_layers s1 + 1\<rparr>
         else s1)"

definition scan_convolution ::
    "('v, 'c) lo_ops \<Rightarrow> 'v program \<Rightarrow> node_ptr \<Rightarrow> convolution_prim \<Rightarrow> 'c attr_scan
       \<Rightarrow> error + 'c attr_scan" where
  "scan_convolution ops p node conv s =
     (case get_dependency (nodes p node) 0 of
        Inl e \<Rightarrow> Inl e
      | Inr dep \<Rightarrow>
          (let input_size = get_tensor (layout_of ops p dep);
               ifm = nat ((feature input_size ! 0) mod 2 ^ 32)
           in Inr (conv_formats ops p node conv
                     (conv_1x1_counter input_size
                        (conv_group_counters conv ifm (conv_attributes conv s))))))"

text \<open>Second and third block: a deconvolution; the kinds that set \<open>bfyx_only_layer\<close>.\<close>

definition is_deconvolution :: "'v primitive_kind \<Rightarrow> bool" where
  "is_deconvolution k = (case k of deconvolution _ \<Rightarrow> True | _ \<Rightarrow> False)"

definition scan_deconvolution ::
    "('v, 'c) lo_ops \<Rightarrow> 'v program \<Rightarrow> node_ptr \<Rightarrow> 'c attr_scan \<Rightarrow> 'c attr_scan" where
  "scan_deconvolution ops p node s =
     (if is_deconvolution (kind (nodes p node)) then
        (if is_format_optimized ops (lo s) p node b_fs_zyx_fsv16
         then s\<lparr>opt_deconv_layers_b_fs_zyx_fsv16 := opt_deconv_layers_b_fs_zyx_fsv16 s + 1\<rparr>
         else if is_format_supported ops (lo s) p node b_fs_yx_fsv16
         then s\<lparr>opt_deconv_layers_b_fs_yx_fsv16 := opt_deconv_layers_b_fs_yx_fsv16 s + 1\<rparr>
         else s)
      else s)"

definition scan_bfyx_only :: "'v primitive_kind \<Rightarrow> 'c attr_scan \<Rightarrow> 'c attr_scan" where
  "scan_bfyx_only k s =
     (if k = detection_output \<or> k = proposal \<or> k = roi_pooling \<or> is_deconvolution k
         \<or> k = resample \<or> k = reorg_yolo
      then s\<lparr>lo := set_optimization_attribute bfyx_only_layer 1 (lo s)\<rparr> else s)"

text \<open>
  Fourth block: the kinds that keep \<open>can_use_fsv16\<close>. The condition of the code is one
  conjunction of inequalities \<open>prim.type() != T::type_id()\<close>, with one clause about mvn
  in the middle; \<open>fsv16_listed_before_mvn\<close> holds the types named before that clause and
  \<open>fsv16_listed_after_mvn\<close> those named after it (mvn itself is among them). The mvn
  clause is reached for an mvn node only, and reads the layout of the node's input.
\<close>

definition fsv16_listed_before_mvn :: "'v primitive_kind \<Rightarrow> bool" where
  "fsv16_listed_before_mvn k =
     (case k of
        convolution _ \<Rightarrow> True | deconvolution _ \<Rightarrow> True | activation \<Rightarrow> True
      | pooling _ \<Rightarrow> True | eltwise \<Rightarrow> True | permute \<Rightarrow> True | reshape \<Rightarrow> True
      | detection_output \<Rightarrow> True | binary_convolution _ \<Rightarrow> True | quantize _ \<Rightarrow> True
      | custom_gpu_primitive \<Rightarrow> True | concatenation \<Rightarrow> True | fully_connected \<Rightarrow> True
      | reorder \<Rightarrow> True | input_layout \<Rightarrow> True | softmax \<Rightarrow> True | prior_box \<Rightarrow> True
      | border \<Rightarrow> True | resample \<Rightarrow> True | crop \<Rightarrow> True | depth_to_space \<Rightarrow> True
      | shuffle_channels \<Rightarrow> True
      | _ \<Rightarrow> False)"

definition fsv16_listed_after_mvn :: "'v primitive_kind \<Rightarrow> bool" where
  "fsv16_listed_after_mvn k =
     (case k of
        arg_max_min \<Rightarrow> True | dft \<Rightarrow> True | mutable_data \<Rightarrow> True | reduce \<Rightarrow> True
      | strided_slice \<Rightarrow> True | region_yolo \<Rightarrow> True | normalize_primitive \<Rightarrow> True
      | mvn _ \<Rightarrow> True | gather \<Rightarrow> True | scatter_nd_update \<Rightarrow> True | broadcast \<Rightarrow> True
      | ctc_loss \<Rightarrow> True | non_max_suppression \<Rightarrow> True | roi_align \<Rightarrow> True
      | adaptive_pooling \<Rightarrow> True | bucketize \<Rightarrow> True | roll \<Rightarrow> True | prior_box \<Rightarrow> True
      | resample \<Rightarrow> True | eye \<Rightarrow> True | generate_proposals \<Rightarrow> True | reverse \<Rightarrow> True
      | reorg_yolo \<Rightarrow> True | scatter_elements_update \<Rightarrow> True
      | experimental_detectron_detection_output \<Rightarrow> True
      | _ \<Rightarrow> False)"

definition mvn_clause :: "('v, 'c) lo_ops \<Rightarrow> 'v program \<Rightarrow> node_ptr \<Rightarrow> error + bool" where
  "mvn_clause ops p node =
     (case kind (nodes p node) of
        mvn prim \<Rightarrow>
          (case get_dependency (nodes p node) 0 of
             Inl e \<Rightarrow> Inl e
           | Inr dep \<Rightarrow>
               Inr ((data_type (layout_of ops p dep) \<noteq> u8 \<and> data_type (layout_of ops p dep) \<noteq> i8)
                    \<or> mvn_across_channels prim))
      | _ \<Rightarrow> Inr True)"

definition scan_fsv16 ::
    "('v, 'c) lo_ops \<Rightarrow> 'v program \<Rightarrow> node_ptr \<Rightarrow> 'c attr_scan \<Rightarrow> error + 'c attr_scan" where
  "scan_fsv16 ops p node s =
     (if data_flow (nodes p node) \<and> \<not> fsv16_listed_before_mvn (kind (nodes p node)) then
        (case mvn_clause ops p node of
           Inl e \<Rightarrow> Inl e
         | Inr c \<Rightarrow>
             Inr (if c \<and> \<not> fsv16_listed_after_mvn (kind (nodes p node))
                  then s\<lparr>can_use_fsv16 := False\<rparr> else s))
      else Inr s)"

text \<open>Fifth and sixth block: an int8 quantize; a crop.\<close>

definition scan_quantize :: "('v, 'c) lo_ops \<Rightarrow> 'v program \<Rightarrow> node_ptr \<Rightarrow> 'c attr_scan \<Rightarrow> 'c attr_scan" where
  "scan_quantize ops p node s =
     (if is_quantize (kind (nodes p node))
         \<and> (data_type (layout_of ops p node) = i8 \<or> data_type (layout_of ops p node) = u8)
      then s\<lparr>is_quantized_int8_model := True\<rparr> else s)"

definition scan_crop :: "'v primitive_kind \<Rightarrow> 'c attr_scan \<Rightarrow> 'c attr_scan" where
  "scan_crop k s = (if k = crop then s\<lparr>total_crop_layers := total_crop_layers s + 1\<rparr> else s)"

text \<open>Seventh block: the kinds that keep \<open>can_use_bs_fs_yx_bsv16_fsv16\<close>.\<close>

definition bsv16_fsv16_listed :: "'v primitive_kind \<Rightarrow> bool" where
  "bsv16_fsv16_listed k =
     (case k of
        convolution _ \<Rightarrow> True | pooling _ \<Rightarrow> True | eltwise \<Rightarrow> True | reorder \<Rightarrow> True
      | permute \<Rightarrow> True | reshape \<Rightarrow> True | input_layout \<Rightarrow> True | activation \<Rightarrow> True
      | dft \<Rightarrow> True | softmax \<Rightarrow> True | fully_connected \<Rightarrow> True | generic_layer \<Rightarrow> True
      | scatter_nd_update \<Rightarrow> True | broadcast \<Rightarrow> True | quantize _ \<Rightarrow> True | ctc_loss \<Rightarrow> True
      | non_max_suppression \<Rightarrow> True | roi_align \<Rightarrow> True | adaptive_pooling \<Rightarrow> True
      | bucketize \<Rightarrow> True | roll \<Rightarrow> True | resample \<Rightarrow> True | prior_box \<Rightarrow> True | eye \<Rightarrow> True
      | generate_proposals \<Rightarrow> True | reverse \<Rightarrow> True | reorg_yolo \<Rightarrow> True
      | scatter_elements_update \<Rightarrow> True | experimental_detectron_detection_output \<Rightarrow> True
      | deconvolution _ \<Rightarrow> True
      | _ \<Rightarrow> False)"

definition scan_bsv16_fsv16 :: "'v program_node \<Rightarrow> 'c attr_scan \<Rightarrow> 'c attr_scan" where
  "scan_bsv16_fsv16 n s =
     (if data_flow n \<and> \<not> bsv16_fsv16_listed (kind n)
      then s\<lparr>can_use_bs_fs_yx_bsv16_fsv16 := False\<rparr> else s)"

text \<open>The whole loop body, and the loop over the processing order.\<close>

definition scan_node ::
    "('v, 'c) lo_ops \<Rightarrow> 'v program \<Rightarrow> node_ptr \<Rightarrow> 'c attr_scan \<Rightarrow> error + 'c attr_scan" where
  "scan_node ops p node s =
     (case (case kind (nodes p node) of
              convolution conv \<Rightarrow> scan_convolution ops p node conv s
            | _ \<Rightarrow> Inr s) of
        Inl e \<Rightarrow> Inl e
      | Inr s1 \<Rightarrow>
          (case scan_fsv16 ops p node
                  (scan_bfyx_only (kind (nodes p node)) (scan_deconvolution ops p node s1)) of
             Inl e \<Rightarrow> Inl e
           | Inr s2 \<Rightarrow>
               Inr (scan_bsv16_fsv16 (nodes p node)
                      (scan_crop (kind (nodes p node)) (scan_quantize ops p node s2)))))"

fun scan_nodes ::
    "('v, 'c) lo_ops \<Rightarrow> 'v program \<Rightarrow> node_ptr list \<Rightarrow> 'c attr_scan \<Rightarrow> error + 'c attr_scan" where
  "scan_nodes ops p [] s = Inr s"
| "scan_nodes ops p (node # rest) s =
     (case scan_node ops p node s of Inl e \<Rightarrow> Inl e | Inr s' \<Rightarrow> scan_nodes ops p rest s')"

text \<open>The decisions after the loop, and the attributes they set, in the order of the code.\<close>

definition should_use_b_fs_yx_fsv16_conv :: "('v, 'c) lo_ops \<Rightarrow> 'c attr_scan \<Rightarrow> bool" where
  "should_use_b_fs_yx_fsv16_conv ops s =
     (let total_conv_layers = get_total_conv_count ops (lo_state (lo s));
          num_of_conv_b_fs_yx_fsv16 =
            get_optimized_conv_count ops (lo_state (lo s)) (b_fs_yx_fsv16, False)
      in is_quantized_int8_model s
         \<or> (can_use_fsv16 s
            \<and> total_conv_layers > 11
            \<and> (times_cond_denom num_of_conv_b_fs_yx_fsv16 total_conv_layers > 1 / 2
               \<or> opt_deconv_layers_b_fs_yx_fsv16 s \<ge> 1)
            \<and> num_of_conv_b_fs_yx_fsv16 * 2 > total_crop_layers s))"

definition decide_attributes :: "('v, 'c) lo_ops \<Rightarrow> 'c attr_scan \<Rightarrow> 'c layout_optimizer" where
  "decide_attributes ops s =
     (let total_conv_layers = get_total_conv_count ops (lo_state (lo s));
          should_use_fs_b_yx_fsv32_conv =
            (total_conv_layers > 11 \<and> total_grouped_conv_layers s = 0
             \<and> times_cond_denom (total_1x1_fm_conv_layers s) total_conv_layers < to_f32 (4 / 5));
          should_use_b_fs_zyx_fsv32_conv = (total_asym_quantized_conv_layers s > 1);
          should_use_bs_fs_yx_bsv16_fsv16 =
            (can_use_bs_fs_yx_bsv16_fsv16 s \<and> total_conv_layers > 11
             \<and> total_conv_layers
                 = get_optimized_conv_count ops (lo_state (lo s)) (bs_fs_yx_bsv16_fsv16, False)
             \<and> total_grouped_conv_layers s = 0 \<and> total_dw_splitted_conv_layers s = 0
             \<and> total_dw_conv_layers s = 0);
          l1 = (if should_use_fs_b_yx_fsv32_conv
                then set_optimization_attribute fs_b_yx_fsv32_network 1 (lo s) else lo s);
          l2 = (if should_use_b_fs_zyx_fsv32_conv
                then set_optimization_attribute b_fs_zyx_fsv32_network 1 l1 else l1);
          l3 = (if should_use_b_fs_yx_fsv16_conv ops s
                then set_optimization_attribute b_fs_yx_fsv16_network 1 l2 else l2);
          l4 = (if get_optimized_conv_count ops (lo_state (lo s)) (b_fs_zyx_fsv16, False) \<ge> 1
                   \<or> opt_deconv_layers_b_fs_zyx_fsv16 s \<ge> 1
                then set_optimization_attribute b_fs_zyx_fsv16_network 1 l3 else l3);
          l5 = (if should_use_bs_fs_yx_bsv16_fsv16
                then set_optimization_attribute bs_fs_yx_bsv16_fsv16_network 1 l4 else l4)
      in if onednn_in_order ops then set_optimization_attribute use_onednn_impls 1 l5 else l5)"

definition scan_start :: "('v, 'c) lo_ops \<Rightarrow> 'c layout_optimizer \<Rightarrow> 'c attr_scan" where
  "scan_start ops l =
     \<lparr>lo = l\<lparr>lo_state := set_implementation_forcing ops (lo_state l)\<rparr>,
      can_use_fsv16 = True, can_use_bs_fs_yx_bsv16_fsv16 = True,
      is_quantized_int8_model = False, total_asym_quantized_conv_layers = 0,
      total_dw_conv_layers = 0, total_dw_splitted_conv_layers = 0,
      total_1x1_fm_conv_layers = 0, total_grouped_conv_layers = 0,
      opt_deconv_layers_b_fs_zyx_fsv16 = 0, opt_deconv_layers_b_fs_yx_fsv16 = 0,
      total_crop_layers = 0\<rparr>"

definition set_layout_optimizer_attributes ::
    "('v, 'c) lo_ops \<Rightarrow> 'v program \<Rightarrow> 'c layout_optimizer \<Rightarrow> error + 'c layout_optimizer" where
  "set_layout_optimizer_attributes ops p l =
     (case scan_nodes ops p (processing_order p) (scan_start ops l) of
        Inl e \<Rightarrow> Inl e
      | Inr s \<Rightarrow> Inr (decide_attributes ops s))"

text \<open>
  The claim's side, stated on its own: what it calls an int8-quantized model (one with
  a quantize node whose output is i8 or u8), the kinds that are fsv16-compatible, a
  graph whose data-flow nodes are all of such kinds, and the number of crops.
\<close>

definition int8_quantize_node :: "('v, 'c) lo_ops \<Rightarrow> 'v program \<Rightarrow> node_ptr \<Rightarrow> bool" where
  "int8_quantize_node ops p n =
     (case kind (nodes p n) of
        quantize q \<Rightarrow> data_type (layout_of ops p n) \<in> {i8, u8}
      | _ \<Rightarrow> False)"

definition int8_quantized_model :: "('v, 'c) lo_ops \<Rightarrow> 'v program \<Rightarrow> bool" where
  "int8_quantized_model ops p = list_ex (int8_quantize_node ops p) (processing_order p)"

definition fsv16_compatible :: "'v primitive_kind \<Rightarrow> bool" where
  "fsv16_compatible k =
     (case k of
        convolution _ \<Rightarrow> True | binary_convolution _ \<Rightarrow> True | deconvolution _ \<Rightarrow> True
      | pooling _ \<Rightarrow> True | quantize _ \<Rightarrow> True | mvn _ \<Rightarrow> True | activation \<Rightarrow> True
      | adaptive_pooling \<Rightarrow> True | arg_max_min \<Rightarrow> True | border \<Rightarrow> True | broadcast \<Rightarrow> True
      | bucketize \<Rightarrow> True | concatenation \<Rightarrow> True | crop \<Rightarrow> True | ctc_loss \<Rightarrow> True
      | custom_gpu_primitive \<Rightarrow> True | depth_to_space \<Rightarrow> True | detection_output \<Rightarrow> True
      | dft \<Rightarrow> True | eltwise \<Rightarrow> True | experimental_detectron_detection_output \<Rightarrow> True
      | eye \<Rightarrow> True | fully_connected \<Rightarrow> True | gather \<Rightarrow> True | generate_proposals \<Rightarrow> True
      | input_layout \<Rightarrow> True | mutable_data \<Rightarrow> True | non_max_suppression \<Rightarrow> True
      | normalize_primitive \<Rightarrow> True | permute \<Rightarrow> True | prior_box \<Rightarrow> True | reduce \<Rightarrow> True
      | region_yolo \<Rightarrow> True | reorder \<Rightarrow> True | reorg_yolo \<Rightarrow> True | resample \<Rightarrow> True
      | reshape \<Rightarrow> True | reverse \<Rightarrow> True | roi_align \<Rightarrow> True | roll \<Rightarrow> True
      | scatter_elements_update \<Rightarrow> True | scatter_nd_update \<Rightarrow> True | shuffle_channels \<Rightarrow> True
      | softmax \<Rightarrow> True | strided_slice \<Rightarrow> True
      | _ \<Rightarrow> False)"

definition fsv16_compatible_graph :: "'v program \<Rightarrow> bool" where
  "fsv16_compatible_graph p =
     list_all (\<lambda>n. \<not> data_flow (nodes p n) \<or> fsv16_compatible (kind (nodes p n)))
       (processing_order p)"

definition crop_count :: "'v program \<Rightarrow> nat" where
  "crop_count p = length (filter (\<lambda>n. kind (nodes p n) = crop) (processing_order p))"

text \<open>
  Deconvolutions are counted by asking the optimizer about each, as it stands when the
  loop reaches the node; \<open>visits_counted\<close> is the number of nodes for which the answer
  is yes. The claim asks whether the deconvolution is fsv16-optimizable: whether the
  optimizer calls b\_fs\_yx\_fsv16 supported for it. The loop counts it for
  b\_fs\_yx\_fsv16 in the \<open>else\<close> branch of the test for b\_fs\_zyx\_fsv16: when the
  optimizer does not call b\_fs\_zyx\_fsv16 optimized for it and calls b\_fs\_yx\_fsv16
  supported.
\<close>

fun visits_counted ::
    "(node_ptr \<Rightarrow> 'c layout_optimizer \<Rightarrow> bool) \<Rightarrow> ('v, 'c) lo_ops \<Rightarrow> 'v program
       \<Rightarrow> node_ptr list \<Rightarrow> 'c attr_scan \<Rightarrow> nat" where
  "visits_counted asked ops p [] s = 0"
| "visits_counted asked ops p (n # rest) s =
     (if asked n (lo s) then 1 else 0)
     + (case scan_node ops p n s of
          Inl e \<Rightarrow> 0
        | Inr s' \<Rightarrow> visits_counted asked ops p rest s')"

definition deconv_fsv16_optimizable ::
    "('v, 'c) lo_ops \<Rightarrow> 'v program \<Rightarrow> node_ptr \<Rightarrow> 'c layout_optimizer \<Rightarrow> bool" where
  "deconv_fsv16_optimizable ops p n l =
     (case kind (nodes p n) of
        deconvolution _ \<Rightarrow> is_format_supported ops l p n b_fs_yx_fsv16
      | _ \<Rightarrow> False)"

definition deconv_counted ::
    "('v, 'c) lo_ops \<Rightarrow> 'v program \<Rightarrow> node_ptr \<Rightarrow> 'c layout_optimizer \<Rightarrow> bool" where
  "deconv_counted ops p n l =
     (case kind (nodes p n) of
        deconvolution _ \<Rightarrow>
          \<not> is_format_optimized ops l p n b_fs_zyx_fsv16
          \<and> is_format_supported ops l p n b_fs_yx_fsv16
      | _ \<Rightarrow> False)"

definition fsv16_optimizable_deconvs ::
    "('v, 'c) lo_ops \<Rightarrow> 'v program \<Rightarrow> 'c layout_optimizer \<Rightarrow> nat" where
  "fsv16_optimizable_deconvs ops p l =
     visits_counted (deconv_fsv16_optimizable ops p) ops p (processing_order p) (scan_start ops l)"

definition fsv16_deconv_count :: "('v, 'c) lo_ops \<Rightarrow> 'v program \<Rightarrow> 'c layout_optimizer \<Rightarrow> nat" where
  "fsv16_deconv_count ops p l =
     visits_counted (deconv_counted ops p) ops p (processing_order p) (scan_start ops l)"

text \<open>
  The counts of the optimizer after the call, and the condition of the claim three
  times: \<open>fsv16_threshold_spec\<close> as the specification words it, with the fraction of
  the two counts and the fsv16-optimizable deconvolutions; \<open>fsv16_threshold_counted\<close>
  with the deconvolutions that the loop counts for b\_fs\_yx\_fsv16;
  \<open>fsv16_threshold_f32\<close> with, moreover, the single-precision product that the code
  compares with \<open>0.5f\<close> in place of the fraction.
\<close>

definition total_convs :: "('v, 'c) lo_ops \<Rightarrow> 'c layout_optimizer \<Rightarrow> nat" where
  "total_convs ops l = get_total_conv_count ops (lo_state l)"

definition fsv16_convs :: "('v, 'c) lo_ops \<Rightarrow> 'c layout_optimizer \<Rightarrow> nat" where
  "fsv16_convs ops l = get_optimized_conv_count ops (lo_state l) (b_fs_yx_fsv16, False)"

definition fsv16_threshold_spec ::
    "('v, 'c) lo_ops \<Rightarrow> 'v program \<Rightarrow> 'c layout_optimizer \<Rightarrow> 'c layout_optimizer \<Rightarrow> bool" where
  "fsv16_threshold_spec ops p l l' =
     (int8_quantized_model ops p
      \<or> (fsv16_compatible_graph p
         \<and> total_convs ops l' > 11
         \<and> (real (fsv16_convs ops l') / real (total_convs ops l') > 1 / 2
            \<or> fsv16_optimizable_deconvs ops p l \<ge> 1)
         \<and> fsv16_convs ops l' * 2 > crop_count p))"

definition fsv16_threshold_counted ::
    "('v, 'c) lo_ops \<Rightarrow> 'v program \<Rightarrow> 'c layout_optimizer \<Rightarrow> 'c layout_optimizer \<Rightarrow> bool" where
  "fsv16_threshold_counted ops p l l' =
     (int8_quantized_model ops p
      \<or> (fsv16_compatible_graph p
         \<and> total_convs ops l' > 11
         \<and> (real (fsv16_convs ops l') / real (total_convs ops l') > 1 / 2
            \<or> fsv16_deconv_count ops p l \<ge> 1)
         \<and> fsv16_convs ops l' * 2 > crop_count p))"

definition fsv16_threshold_f32 ::
    "('v, 'c) lo_ops \<Rightarrow> 'v program \<Rightarrow> 'c layout_optimizer \<Rightarrow> 'c layout_optimizer \<Rightarrow> bool" where
  "fsv16_threshold_f32 ops p l l' =
     (int8_quantized_model ops p
      \<or> (fsv16_compatible_graph p
         \<and> total_convs ops l' > 11
         \<and> (times_cond_denom (fsv16_convs ops l') (total_convs ops l') > 1 / 2
            \<or> fsv16_deconv_count ops p l \<ge> 1)
         \<and> fsv16_convs ops l' * 2 > crop_count p))"

text \<open>
  What the decision about b\_fs\_yx\_fsv16 reads of the loop's variables: the int8 flag,
  the fsv16 flag, the crop and deconvolution counters, and the attribute itself.
\<close>

definition fsv16_view :: "'c attr_scan \<Rightarrow> bool \<times> bool \<times> nat \<times> nat \<times> int" where
  "fsv16_view s =
     (is_quantized_int8_model s, can_use_fsv16 s, total_crop_layers s,
      opt_deconv_layers_b_fs_yx_fsv16 s, optimization_attributes (lo s) b_fs_yx_fsv16_network)"

text \<open>
  The invariant of the loop after \<open>i\<close> iterations, against the program \<open>p\<close> it started
  from: ids, kinds and the peer's inputs are untouched, the host has received the
  expected inputs among the first \<open>i\<close>, and every node has the host as a new user once
  for each time it was handed over.
\<close>

definition kept_upto :: "('v::ord) program \<Rightarrow> node_ptr \<Rightarrow> node_ptr \<Rightarrow> nat \<Rightarrow> node_ptr list" where
  "kept_upto p fused_node peer_node i =
     map (\<lambda>i. dependencies (nodes p peer_node) ! i)
       (filter (\<lambda>i. \<not> is_host p fused_node (dependencies (nodes p peer_node) ! i)
                   \<and> \<not> table_drops p peer_node i) [0 ..< i])"

definition fuse_inv ::
    "('v::ord) program \<Rightarrow> node_ptr \<Rightarrow> node_ptr \<Rightarrow> nat \<Rightarrow> 'v program \<Rightarrow> bool" where
  "fuse_inv p fused_node peer_node i q =
     ((\<forall>a. node_id (nodes q a) = node_id (nodes p a))
      \<and> (\<forall>a. kind (nodes q a) = kind (nodes p a))
      \<and> dependencies (nodes q peer_node) = dependencies (nodes p peer_node)
      \<and> dependencies (nodes q fused_node)
          = dependencies (nodes p fused_node) @ kept_upto p fused_node peer_node i
      \<and> (\<forall>d. users (nodes q d)
             = users (nodes p d) @ replicate (count_list (kept_upto p fused_node peer_node i) d) fused_node))"

section \<open>Example programs\<close>

definition plain_layout :: "data_types \<Rightarrow> layout" where
  "plain_layout dt =
     \<lparr>data_type = dt, fmt = bfyx,
      get_tensor = \<lparr>batch = [1], feature = [1], spatial = [1, 1]\<rparr>,
      data_padding = \<lparr>lower_size = [], upper_size = []\<rparr>\<rparr>"

definition detached_node :: "primitive_id \<Rightarrow> int primitive_kind \<Rightarrow> int program_node" where
  "detached_node i k =
     \<lparr>node_id = i, kind = k, origin_op_name = [], origin_op_type_name = [],
      dependencies = [], users = [], is_output = False, is_constant = False,
      data_flow = False, user_mark = 0, output_layout = plain_layout f32,
      valid_output_layout = True, memory_dependencies = {}\<rparr>"

definition empty_program :: "int program" where
  "empty_program =
     \<lparr>nodes = (\<lambda>_. detached_node [] data), nodes_map = Map.empty, inputs = [], outputs = [],
      processing_order = [], optimized_out = [], optimized = [], debug_build = False,
      configuration = \<lparr>use_memory_pool = False\<rparr>\<rparr>"

text \<open>Two nodes \<open>a\<close> (at address 0) and \<open>b\<close> (at address 1) with the edge \<open>a \<rightarrow> b\<close>.\<close>

definition two_node_program :: "int program" where
  "two_node_program =
     empty_program
       \<lparr>nodes := (\<lambda>_. detached_node [] data)
          (0 := (detached_node ''a'' input_layout)\<lparr>users := [1]\<rparr>,
           1 := (detached_node ''b'' activation)\<lparr>dependencies := [0]\<rparr>),
        nodes_map := [''a'' \<mapsto> 0, ''b'' \<mapsto> 1],
        inputs := [0], processing_order := [0, 1]\<rparr>"

text \<open>One dangling node \<open>out\<close> that is marked as an output, in a release build.\<close>

definition dangling_output_program :: "int program" where
  "dangling_output_program =
     empty_program
       \<lparr>nodes := (\<lambda>_. detached_node [] data)(0 := (detached_node ''out'' data)\<lparr>is_output := True\<rparr>),
        nodes_map := [''out'' \<mapsto> 0], outputs := [0], processing_order := [0]\<rparr>"

text \<open>One dangling node that is not an output.\<close>

definition dangling_program :: "int program" where
  "dangling_program =
     empty_program
       \<lparr>nodes := (\<lambda>_. detached_node [] data)(0 := detached_node ''d'' data),
        nodes_map := [''d'' \<mapsto> 0], inputs := [0], processing_order := [0]\<rparr>"

text \<open>
  An input node \<open>in\<close> whose layout has not been computed, a constant \<open>w\<close>, their sum
  \<open>sum\<close> and a reorder \<open>r\<close> of \<open>w\<close>; all stored layouts are f16.
\<close>

definition precision_program :: "int program" where
  "precision_program =
     empty_program
       \<lparr>nodes := (\<lambda>_. detached_node [] data)
          (0 := (detached_node ''in'' input_layout)
                  \<lparr>users := [1], output_layout := plain_layout f16, valid_output_layout := False\<rparr>,
           1 := (detached_node ''sum'' eltwise)
                  \<lparr>dependencies := [0, 2], output_layout := plain_layout f16\<rparr>,
           2 := (detached_node ''w'' data)\<lparr>users := [1, 3], output_layout := plain_layout f16\<rparr>,
           3 := (detached_node ''r'' reorder)
                  \<lparr>dependencies := [2], output_layout := plain_layout f16\<rparr>),
        nodes_map := [''in'' \<mapsto> 0, ''sum'' \<mapsto> 1, ''w'' \<mapsto> 2, ''r'' \<mapsto> 3],
        inputs := [0, 2], processing_order := [0, 2, 1, 3]\<rparr>"

text \<open>
  An eltwise \<open>sum\<close> (address 0, inputs at 10 and 11) followed by a quantize \<open>q\<close>
  (address 1) with the nine inputs of a quantize: the eltwise and the eight range,
  scale and shift tensors at addresses 2 to 9. The quantize runs in scale-shift mode,
  needs clamping, post-scale and post-shift but no pre-shift, and only its output shift
  is per-tensor.
\<close>

definition quantize_flags :: "int quantize_node" where
  "quantize_flags =
     \<lparr>scale_shift_opt = True, need_post_scale = True, need_post_shift = True,
      need_pre_shift = False, need_clamp = True, per_tensor_input_range = False,
      per_tensor_input_scale = False, per_tensor_input_shift = False,
      per_tensor_output_range = False, per_tensor_output_scale = False,
      per_tensor_output_shift = True, output_lo_val = 0, output_hi_val = 255\<rparr>"

definition fuse_program :: "int program" where
  "fuse_program =
     empty_program
       \<lparr>nodes := (\<lambda>_. detached_node [] data)
          (0 := (detached_node ''sum'' eltwise)\<lparr>dependencies := [10, 11], users := [1]\<rparr>,
           1 := (detached_node ''q'' (quantize quantize_flags))
                  \<lparr>dependencies := [0, 2, 3, 4, 5, 6, 7, 8, 9]\<rparr>,
           2 := (detached_node ''in_lo'' data)\<lparr>users := [1]\<rparr>,
           3 := (detached_node ''in_hi'' data)\<lparr>users := [1]\<rparr>,
           4 := (detached_node ''out_lo'' data)\<lparr>users := [1]\<rparr>,
           5 := (detached_node ''out_hi'' data)\<lparr>users := [1]\<rparr>,
           6 := (detached_node ''in_scale'' data)\<lparr>users := [1]\<rparr>,
           7 := (detached_node ''in_shift'' data)\<lparr>users := [1]\<rparr>,
           8 := (detached_node ''out_scale'' data)\<lparr>users := [1]\<rparr>,
           9 := (detached_node ''out_shift'' data)\<lparr>users := [1]\<rparr>,
           10 := (detached_node ''x'' input_layout)\<lparr>users := [0]\<rparr>,
           11 := (detached_node ''y'' data)\<lparr>users := [0]\<rparr>)\<rparr>"

definition fuse_start :: "int fuse_state" where
  "fuse_start = \<lparr>prog = fuse_program, local_desc_deps = [], deps_idx = 0\<rparr>"

text \<open>
  A node \<open>old\<close> (address 1) that reads the same node \<open>d\<close> (address 0) through both of
  its inputs, one user \<open>u\<close> (address 3) of \<open>old\<close>, and a detached node \<open>new\<close>
  (address 2) that is to replace \<open>old\<close>.
\<close>

definition dup_program :: "int program" where
  "dup_program =
     empty_program
       \<lparr>nodes := (\<lambda>_. detached_node [] data)
          (0 := (detached_node ''d'' input_layout)\<lparr>users := [1, 1]\<rparr>,
           1 := (detached_node ''old'' eltwise)\<lparr>dependencies := [0, 0], users := [3]\<rparr>,
           2 := detached_node ''new'' eltwise,
           3 := (detached_node ''u'' activation)\<lparr>dependencies := [1]\<rparr>),
        nodes_map := [''d'' \<mapsto> 0, ''old'' \<mapsto> 1, ''new'' \<mapsto> 2, ''u'' \<mapsto> 3],
        inputs := [0], processing_order := [0, 1, 3]\<rparr>"

text \<open>What a caller can see of the outcome of \<open>replace\<close>: failure, or the new node's edges.\<close>

definition edges_after ::
    "node_ptr \<Rightarrow> (error \<times> 'v program) + 'v program \<Rightarrow> error + (node_ptr list \<times> node_ptr list)" where
  "edges_after n r =
     (case r of
        Inl (e, _) \<Rightarrow> Inl e
      | Inr p \<Rightarrow> Inr (dependencies (nodes p n), users (nodes p n)))"

text \<open>
  Stand-ins for the calculators, for unpadded and undilated windows: with input \<open>i\<close>,
  filter \<open>f\<close> and stride \<open>s\<close> along an axis, the output range is \<open>(i - f) div s + 1\<close>
  in mode \<open>all\<close>, where the window stays inside the input, and
  \<open>(i - f + s - 1) div s + 1\<close> in the other modes, where the last window may exceed it;
  the needed input range is \<open>(i - 1) * s + f\<close>.
\<close>

definition shape :: "int \<Rightarrow> int \<Rightarrow> int list \<Rightarrow> tensor" where
  "shape b f sp = \<lparr>batch = [b], feature = [f], spatial = sp\<rparr>"

definition along_axes :: "(int \<Rightarrow> int \<Rightarrow> int \<Rightarrow> int) \<Rightarrow> tensor \<Rightarrow> tensor \<Rightarrow> nat list \<Rightarrow> tensor" where
  "along_axes g input_size filter_size stride =
     shape 0 0 (map (\<lambda>(i, f, s). g i f (int s))
                  (zip (spatial input_size) (zip (spatial filter_size) stride)))"

definition window_env :: "int analysis_env" where
  "window_env =
     \<lparr>tensor_of_sizes = (\<lambda>sizes d. shape (sizes ! 0) (sizes ! 1) [sizes ! 2, sizes ! 3, sizes ! 4]),
      tensor_of_value = (\<lambda>v. shape v v [v, v, v]),
      input_size_of = (\<lambda>p n. case dependencies (nodes p n) of
                               [] \<Rightarrow> Inl out_of_range
                             | d # _ \<Rightarrow> Inr (get_tensor (output_layout (nodes p d)))),
      filter_size_of = (\<lambda>p n. case dependencies (nodes p n) of
                                d # w # _ \<Rightarrow> Inr (get_tensor (output_layout (nodes p w)))
                              | _ \<Rightarrow> Inl out_of_range),
      calc_sliding_window_output_range =
        (\<lambda>mode input_size filter_size pad stride dilation sym_pad degen_val.
           Inr (along_axes (\<lambda>i f s. if mode = all then (i - f) div s + 1
                                     else (i - f + s - 1) div s + 1)
                  input_size filter_size stride)),
      calc_sliding_window_needed_input_range =
        (\<lambda>output_size filter_size pad stride dilation sym_pad degen_val.
           Inr (along_axes (\<lambda>i f s. (i - 1) * s + f) output_size filter_size stride))\<rparr>"

text \<open>
  An input \<open>x\<close> of 8 by 8 and weights \<open>w\<close> of 3 by 3, read with stride 2 by a
  convolution and a binary convolution that ask for 3 by 3, a deconvolution that asks
  for 17 by 17, a pooling \<open>p1\<close> with a window of 2 by 3 that asks for 4 by 4, and a
  pooling \<open>p2\<close> with the same window that asks for 4 by 3.
\<close>

definition window_program :: "int program" where
  "window_program =
     empty_program
       \<lparr>nodes := (\<lambda>_. detached_node [] data)
          (0 := (detached_node ''x'' input_layout)
                  \<lparr>users := [2, 3, 4, 5, 6],
                   output_layout := (plain_layout f32)\<lparr>get_tensor := shape 1 1 [8, 8, 1]\<rparr>\<rparr>,
           1 := (detached_node ''w'' data)
                  \<lparr>users := [2, 3, 4],
                   output_layout := (plain_layout f32)\<lparr>get_tensor := shape 1 1 [3, 3, 1]\<rparr>\<rparr>,
           2 := (detached_node ''c'' (convolution
                   \<lparr>conv_with_output_size = True, conv_output_size = shape 1 1 [3, 3, 1],
                    conv_pad = [0, 0, 0], conv_stride = [2, 2, 1], conv_dilation = [1, 1, 1],
                    conv_groups = 1, conv_split = 1, conv_deformable_mode = False,
                    conv_weights_zero_points_term = False,
                    conv_activations_zero_points_term = False\<rparr>))
                  \<lparr>dependencies := [0, 1]\<rparr>,
           3 := (detached_node ''b'' (binary_convolution
                   \<lparr>bconv_output_size = shape 1 1 [3, 3, 1], bconv_pad = [0, 0, 0],
                    bconv_stride = [2, 2, 1], bconv_dilation = [1, 1, 1]\<rparr>))
                  \<lparr>dependencies := [0, 1]\<rparr>,
           4 := (detached_node ''d'' (deconvolution
                   \<lparr>deconv_with_output_size = True, deconv_output_size = shape 1 1 [17, 17, 1],
                    deconv_pad = [0, 0, 0], deconv_stride = [2, 2, 1]\<rparr>))
                  \<lparr>dependencies := [0, 1]\<rparr>,
           5 := (detached_node ''p1'' (pooling
                   \<lparr>pool_with_output_size = True, pool_output_size = shape 1 1 [4, 4, 1],
                    pool_size = [1, 3, 2], pool_pad = [0, 0, 0], pool_stride = [2, 2, 1]\<rparr>))
                  \<lparr>dependencies := [0]\<rparr>,
           6 := (detached_node ''p2'' (pooling
                   \<lparr>pool_with_output_size = True, pool_output_size = shape 1 1 [4, 3, 1],
                    pool_size = [1, 3, 2], pool_pad = [0, 0, 0], pool_stride = [2, 2, 1]\<rparr>))
                  \<lparr>dependencies := [0]\<rparr>),
        nodes_map := [''x'' \<mapsto> 0, ''w'' \<mapsto> 1, ''c'' \<mapsto> 2, ''b'' \<mapsto> 3, ''d'' \<mapsto> 4,
                      ''p1'' \<mapsto> 5, ''p2'' \<mapsto> 6],
        inputs := [0, 1], processing_order := [0, 1, 2, 3, 4, 5, 6]\<rparr>"

text \<open>
  A stand-in for the layout optimizer that keeps two counters: the convolutions whose
  formats it has recorded, and those among them at an address up to \<open>k\<close>, which it takes to
  be the ones optimized for b\_fs\_yx\_fsv16 (and for no other format). It answers
  \<open>says_optimized\<close> when asked whether a format is optimized for a node and
  \<open>says_supported\<close> when asked whether one is supported. It reads a node's layout from the node, and starts
  with every attribute cleared and no convolution counted (\<open>fresh_optimizer\<close>).
\<close>

definition counting_ops :: "nat \<Rightarrow> bool \<Rightarrow> bool \<Rightarrow> (int, nat \<times> nat) lo_ops" where
  "counting_ops k says_optimized says_supported =
     \<lparr>set_implementation_forcing = (\<lambda>c. c),
      update_formats_map = (\<lambda>p node c. (fst c + 1, if node \<le> k then snd c + 1 else snd c)),
      is_format_optimized = (\<lambda>l p node f. says_optimized),
      is_format_supported = (\<lambda>l p node f. says_supported),
      get_total_conv_count = fst,
      get_optimized_conv_count = (\<lambda>c key. if key = (b_fs_yx_fsv16, False) then snd c else 0),
      layout_of = (\<lambda>p node. output_layout (nodes p node)),
      onednn_in_order = False\<rparr>"

definition fresh_optimizer :: "(nat \<times> nat) layout_optimizer" where
  "fresh_optimizer = \<lparr>optimization_attributes = (\<lambda>_. 0), lo_state = (0, 0)\<rparr>"

text \<open>
  An input (address 0) read by \<open>m\<close> convolutions (addresses 1 to \<open>m\<close>), none of them
  grouped, split, deformable or asymmetrically quantized, and by \<open>d\<close> deconvolutions
  (addresses \<open>m + 1\<close> to \<open>m + d\<close>). The id of the node at address \<open>i\<close> is \<open>i + 1\<close> times
  the letter c.
\<close>

definition plain_conv :: "int primitive_kind" where
  "plain_conv =
     convolution \<lparr>conv_with_output_size = False, conv_output_size = shape 1 1 [1, 1, 1],
       conv_pad = [0, 0], conv_stride = [1, 1], conv_dilation = [1, 1], conv_groups = 1,
       conv_split = 1, conv_deformable_mode = False, conv_weights_zero_points_term = False,
       conv_activations_zero_points_term = False\<rparr>"

definition plain_deconv :: "int primitive_kind" where
  "plain_deconv =
     deconvolution \<lparr>deconv_with_output_size = False, deconv_output_size = shape 1 1 [1, 1, 1],
       deconv_pad = [0, 0], deconv_stride = [1, 1]\<rparr>"

definition conv_star :: "nat \<Rightarrow> nat \<Rightarrow> int program" where
  "conv_star m d =
     empty_program
       \<lparr>nodes := (\<lambda>i. if i = 0
                      then (detached_node (replicate (Suc i) CHR ''c'') input_layout)
                             \<lparr>users := [1..<Suc (m + d)], data_flow := True\<rparr>
                      else (detached_node (replicate (Suc i) CHR ''c'')
                              (if i \<le> m then plain_conv else plain_deconv))
                             \<lparr>dependencies := [0], data_flow := True\<rparr>),
        nodes_map := (\<lambda>i. if i \<noteq> [] \<and> i = replicate (length i) CHR ''c''
                             \<and> length i \<le> Suc (m + d)
                          then Some (length i - 1) else None),
        inputs := [0], processing_order := [0..<Suc (m + d)]\<rparr>"

text \<open>The optimizer after the call on a program, with a fresh optimizer.\<close>

definition star_attributes ::
    "(int, nat \<times> nat) lo_ops \<Rightarrow> int program \<Rightarrow> (nat \<times> nat) layout_optimizer" where
  "star_attributes ops p = projr (set_layout_optimizer_attributes ops p fresh_optimizer)"

section \<open>Properties\<close>

subsection \<open>swap\_names\<close>

text \<open>
  C7. For any two nodes whose ids are keys of the id-map, running \<open>swap_names\<close> twice
  on them gives back the program it started from: the id-map, both descriptor ids and
  every dependency and user list are what they were before the first call.
\<close>

theorem swap_names_twice_identity:
  assumes "node_id (nodes p a) \<in> dom (nodes_map p)"
      and "node_id (nodes p b) \<in> dom (nodes_map p)"
  shows "and_then (swap_names a b p) (swap_names a b) = Inr p"
proof -
  obtain x y where x: "nodes_map p (node_id (nodes p a)) = Some x"
    and y: "nodes_map p (node_id (nodes p b)) = Some y"
    using assms by auto
  show ?thesis
  proof (cases "a = b")
    case True
    with x y show ?thesis
      by (simp add: swap_names_def and_then_def Let_def fun_upd_idem)
  next
    case ab: False
    show ?thesis
    proof (cases "node_id (nodes p a) = node_id (nodes p b)")
      case True
      with x y ab show ?thesis
        by (simp add: swap_names_def and_then_def Let_def fun_upd_idem fun_upd_twist)
    next
      case False
      with x y ab show ?thesis
        by (auto simp add: swap_names_def and_then_def Let_def fun_upd_idem fun_upd_twist
            fun_eq_iff intro!: program.equality)
    qed
  qed
qed

theorem swap_names_twice_identity_witness:
  "node_id (nodes two_node_program 0) \<in> dom (nodes_map two_node_program)
   \<and> node_id (nodes two_node_program 1) \<in> dom (nodes_map two_node_program)
   \<and> and_then (swap_names 0 1 two_node_program) (swap_names 0 1) = Inr two_node_program"
proof -
  have a: "node_id (nodes two_node_program 0) \<in> dom (nodes_map two_node_program)"
    by (simp add: two_node_program_def empty_program_def detached_node_def)
  have b: "node_id (nodes two_node_program 1) \<in> dom (nodes_map two_node_program)"
    by (simp add: two_node_program_def empty_program_def detached_node_def)
  from a b swap_names_twice_identity [OF a b] show ?thesis by simp
qed

subsection \<open>add\_connection\<close>

lemma two_node_edges: "has_edge two_node_program a b = (a = 0 \<and> b = 1)"
  by (simp add: has_edge_def two_node_program_def empty_program_def detached_node_def)

lemma two_node_reaches: "reaches two_node_program a b \<Longrightarrow> a = 0 \<and> b = 1"
  by (induction rule: reaches.induct) (simp_all add: two_node_edges)

text \<open>
  C4, as amended. \<open>add_connection(u, v)\<close> appends \<open>v\<close> to \<open>u.users\<close> and \<open>u\<close> to
  \<open>v.dependencies\<close> and leaves the id-map and the processing order alone. It has no
  failure branch: the edge is there afterwards whatever the graph was.
\<close>

theorem add_connection_effect:
  "users (nodes (add_connection u v p) u) = users (nodes p u) @ [v]
   \<and> dependencies (nodes (add_connection u v p) v) = dependencies (nodes p v) @ [u]
   \<and> has_edge (add_connection u v p) u v
   \<and> nodes_map (add_connection u v p) = nodes_map p
   \<and> processing_order (add_connection u v p) = processing_order p"
  by (simp add: add_connection_def Let_def has_edge_def)

text \<open>
  C4 as stated fails. In the two-node program \<open>b\<close> is reachable from \<open>a\<close> and no node
  lies on a cycle, so the edge \<open>b \<rightarrow> a\<close> would close a cycle; \<open>add_connection\<close> adds it
  all the same, and afterwards \<open>a\<close> reaches itself.
\<close>

theorem add_connection_cycle_counterexample:
  "reaches two_node_program 0 1
   \<and> \<not> reaches two_node_program 0 0 \<and> \<not> reaches two_node_program 1 1
   \<and> users (nodes (add_connection 1 0 two_node_program) 1) = [0]
   \<and> dependencies (nodes (add_connection 1 0 two_node_program) 0) = [1]
   \<and> reaches (add_connection 1 0 two_node_program) 0 0"
proof -
  have e01: "has_edge two_node_program 0 1" by (simp add: two_node_edges)
  have n00: "\<not> reaches two_node_program 0 0" using two_node_reaches by fastforce
  have n11: "\<not> reaches two_node_program 1 1" using two_node_reaches by fastforce
  let ?q = "add_connection 1 0 two_node_program"
  have u: "users (nodes ?q 1) = [0]" and d: "dependencies (nodes ?q 0) = [1]"
    and u0: "users (nodes ?q 0) = [1]"
    by (simp_all add: add_connection_def Let_def two_node_program_def empty_program_def
        detached_node_def)
  have "has_edge ?q 0 1" "has_edge ?q 1 0" using u u0 by (simp_all add: has_edge_def)
  then have "reaches ?q 0 0" by (blast intro: reaches.intros)
  with e01 n00 n11 u d show ?thesis by (simp add: reaches.step)
qed

subsection \<open>remove\_if\_dangling\<close>

text \<open>
  C1, as amended. \<open>remove_if_dangling(n)\<close> returns true exactly when \<open>n\<close> has no users
  and no dependencies. When moreover \<open>n\<close> is not an output, or the build is a debug
  build, \<open>n\<close>'s id is erased from the id-map and appended once to \<open>optimized_out\<close>; in
  every other case the program is left as it was.
\<close>

theorem remove_if_dangling_result:
  "fst (remove_if_dangling n p) = (users (nodes p n) = [] \<and> dependencies (nodes p n) = [])
   \<and> (users (nodes p n) = [] \<and> dependencies (nodes p n) = []
        \<and> (\<not> is_output (nodes p n) \<or> is_debug_build p)
       \<longrightarrow> nodes_map (snd (remove_if_dangling n p)) = (nodes_map p)(node_id (nodes p n) := None)
           \<and> optimized_out (snd (remove_if_dangling n p)) = optimized_out p @ [node_id (nodes p n)]
           \<and> nodes (snd (remove_if_dangling n p)) = nodes p)
   \<and> (\<not> (users (nodes p n) = [] \<and> dependencies (nodes p n) = []
          \<and> (\<not> is_output (nodes p n) \<or> is_debug_build p))
       \<longrightarrow> snd (remove_if_dangling n p) = p)"
  by (simp add: remove_if_dangling_def Let_def)

theorem remove_if_dangling_result_witness:
  "fst (remove_if_dangling 0 dangling_program)
   \<and> nodes_map (snd (remove_if_dangling 0 dangling_program)) ''d'' = None
   \<and> optimized_out (snd (remove_if_dangling 0 dangling_program)) = [''d'']
   \<and> fst (remove_if_dangling 0 dangling_output_program)
   \<and> snd (remove_if_dangling 0 dangling_output_program) = dangling_output_program"
  using remove_if_dangling_result [of 0 dangling_program]
    remove_if_dangling_result [of 0 dangling_output_program]
  by (simp add: dangling_program_def dangling_output_program_def empty_program_def
      detached_node_def is_debug_build_def)

text \<open>
  C1 as stated fails. A dangling node that is an output, in a release build: the call
  returns true, and the node is still in the id-map and nothing was logged.
\<close>

theorem remove_if_dangling_output_counterexample:
  "fst (remove_if_dangling 0 dangling_output_program)
   \<and> is_output (nodes dangling_output_program 0)
   \<and> \<not> is_debug_build dangling_output_program
   \<and> nodes_map (snd (remove_if_dangling 0 dangling_output_program)) ''out'' = Some 0
   \<and> optimized_out (snd (remove_if_dangling 0 dangling_output_program)) = []"
  by (simp add: remove_if_dangling_def Let_def dangling_output_program_def empty_program_def
      detached_node_def is_debug_build_def)

subsection \<open>prepare\_memory\_dependencies\<close>

text \<open>
  C10. With the memory pool disabled in the engine configuration,
  \<open>prepare_memory_dependencies\<close> returns the program it was given, whatever the three
  passes would do (they may fail or rewrite every node): none of them is run, and no
  node's memory-restriction set nor anything else changes.
\<close>

theorem prepare_memory_dependencies_pool_disabled:
  "\<not> use_memory_pool (configuration p) \<Longrightarrow> prepare_memory_dependencies apply_opt_pass p = Inr p"
  by (simp add: prepare_memory_dependencies_def)

theorem prepare_memory_dependencies_pool_disabled_witness:
  "\<not> use_memory_pool (configuration two_node_program)
   \<and> prepare_memory_dependencies (\<lambda>_ _. Inl runtime_error) two_node_program = Inr two_node_program"
proof -
  have h: "\<not> use_memory_pool (configuration two_node_program)"
    by (simp add: two_node_program_def empty_program_def)
  from h prepare_memory_dependencies_pool_disabled [OF h] show ?thesis by simp
qed

subsection \<open>add\_optimized\_primitive\_info\<close>

lemma log_closed_iff:
  "log_closed lg = (\<forall>e \<in> set lg. \<forall>s \<in> set (snd e). s \<notin> fst ` set lg)"
  by (simp add: log_closed_def list_all_iff)

lemma notin_remove1_if_once:
  "count_list xs i \<le> 1 \<Longrightarrow> i \<notin> set (remove1 i xs)"
  by (induction xs) (auto split: if_splits simp: count_list_0_iff)

text \<open>
  What a call does to the log, and when it keeps the log closed: when, before the call,
  no survivor list holds a logged id and none holds \<open>id\<close> more than once, and the new
  survivors are neither \<open>id\<close> itself nor logged ids.
\<close>

lemma add_optimized_primitive_info_log:
  "optimized (add_optimized_primitive_info i ws p) =
     map (\<lambda>e. if i \<in> set (snd e) then (fst e, remove1 i (snd e) @ ws) else e) (optimized p)
     @ [(i, ws)]"
  by (simp add: add_optimized_primitive_info_def)

lemma add_optimized_primitive_info_closed_if_once:
  assumes closed: "log_closed (optimized p)"
      and once: "list_all (\<lambda>e. count_list (snd e) i \<le> 1) (optimized p)"
      and fresh: "i \<notin> set ws"
      and alive: "list_all (\<lambda>s. s \<notin> set (map fst (optimized p))) ws"
  shows "log_closed (optimized (add_optimized_primitive_info i ws p))"
proof -
  define f :: "primitive_id \<times> primitive_id list \<Rightarrow> primitive_id \<times> primitive_id list"
    where "f = (\<lambda>e. if i \<in> set (snd e) then (fst e, remove1 i (snd e) @ ws) else e)"
  define lg where "lg = optimized p"
  define lg' where "lg' = map f lg @ [(i, ws)]"
  have eq: "optimized (add_optimized_primitive_info i ws p) = lg'"
    by (simp add: add_optimized_primitive_info_def lg'_def lg_def f_def)
  have fst_f: "fst (f e) = fst e" for e by (simp add: f_def)
  have "map fst (map f lg) = map fst lg" by (simp add: fst_f)
  then have "set (map fst lg') = insert i (set (map fst lg))" by (simp add: lg'_def)
  then have keys: "fst ` set lg' = insert i (fst ` set lg)" by (simp only: set_map)
  have "\<forall>e \<in> set lg'. \<forall>s \<in> set (snd e). s \<notin> insert i (fst ` set lg)"
  proof (intro ballI)
    fix e s assume e: "e \<in> set lg'" and s: "s \<in> set (snd e)"
    from e consider "e = (i, ws)" | e0 where "e0 \<in> set lg" "e = f e0"
      by (auto simp: lg'_def)
    then show "s \<notin> insert i (fst ` set lg)"
    proof cases
      case 1
      with s fresh alive show ?thesis by (auto simp: list_all_iff lg_def)
    next
      case 2
      from 2(1) closed have old: "\<forall>t \<in> set (snd e0). t \<notin> fst ` set lg"
        by (simp add: log_closed_iff lg_def)
      from 2(1) once have c: "count_list (snd e0) i \<le> 1" by (simp add: list_all_iff lg_def)
      show ?thesis
      proof (cases "i \<in> set (snd e0)")
        case True
        with 2(2) s have "s \<in> set (remove1 i (snd e0)) \<or> s \<in> set ws" by (auto simp: f_def)
        then show ?thesis
        proof
          assume r: "s \<in> set (remove1 i (snd e0))"
          then have "s \<in> set (snd e0)" using set_remove1_subset by fastforce
          moreover from r notin_remove1_if_once [OF c] have "s \<noteq> i" by auto
          ultimately show ?thesis using old by auto
        next
          assume "s \<in> set ws"
          with fresh alive show ?thesis by (auto simp: list_all_iff lg_def)
        qed
      next
        case False
        with 2(2) s have "s \<in> set (snd e0)" by (simp add: f_def)
        with False old show ?thesis by auto
      qed
    qed
  qed
  then have "log_closed lg'" unfolding log_closed_iff keys by blast
  with eq show ?thesis by simp
qed

text \<open>
  C9. The log does not stay closed, although each call names survivors that are not
  logged at the time. Three calls on an empty log: \<open>x\<close> is replaced by \<open>a\<close> and \<open>b\<close>,
  then \<open>a\<close> by \<open>b\<close>, then \<open>b\<close> by \<open>c\<close>. The log is closed after the first and after
  the second call, when the entry of \<open>x\<close> lists \<open>b\<close> twice: once from the start, once
  appended in place of \<open>a\<close>. The third call erases only the first of the two, so \<open>b\<close>,
  now logged as optimized out, is still listed as a survivor of \<open>x\<close>.
\<close>

theorem add_optimized_primitive_info_duplicate_survivor:
  "log_closed (optimized (add_optimized_primitive_info ''x'' [''a'', ''b''] empty_program))
   \<and> optimized (add_optimized_primitive_info ''a'' [''b'']
        (add_optimized_primitive_info ''x'' [''a'', ''b''] empty_program))
       = [(''x'', [''b'', ''b'']), (''a'', [''b''])]
   \<and> log_closed (optimized (add_optimized_primitive_info ''a'' [''b'']
        (add_optimized_primitive_info ''x'' [''a'', ''b''] empty_program)))
   \<and> optimized (add_optimized_primitive_info ''b'' [''c'']
        (add_optimized_primitive_info ''a'' [''b'']
          (add_optimized_primitive_info ''x'' [''a'', ''b''] empty_program)))
       = [(''x'', [''b'', ''c'']), (''a'', [''c'']), (''b'', [''c''])]
   \<and> \<not> log_closed (optimized (add_optimized_primitive_info ''b'' [''c'']
        (add_optimized_primitive_info ''a'' [''b'']
          (add_optimized_primitive_info ''x'' [''a'', ''b''] empty_program))))"
  by (simp add: add_optimized_primitive_info_def log_closed_def empty_program_def)

subsection \<open>get\_inference\_precision\<close>

lemma length_filter_eq_iff:
  "(length (filter P xs) = length xs) = (\<forall>x \<in> set xs. P x)"
  by (metis filter_id_conv length_filter_le filter_True length_filter_less order_less_irrefl)

text \<open>
  C8, as amended. For a node with at least one dependency, \<open>get_inference_precision\<close>
  returns f32 whenever the node's own output layout is invalid or one of its
  dependencies has no valid output layout, and it applies the per-kind rules exactly
  when all these layouts are valid. (A node without dependencies is answered before the
  validity test, from its own layout.)
\<close>

theorem get_inference_precision_fallback:
  assumes "dependencies (nodes p n) \<noteq> []"
  shows "(\<not> valid_output_layout (nodes p n)
          \<or> list_ex (\<lambda>d. \<not> valid_output_layout (nodes p d)) (dependencies (nodes p n))
          \<longrightarrow> get_inference_precision invalid_read max_type is_quantized p n = Inr f32)
       \<and> (valid_output_layout (nodes p n)
          \<and> list_all (\<lambda>d. valid_output_layout (nodes p d)) (dependencies (nodes p n))
          \<longrightarrow> get_inference_precision invalid_read max_type is_quantized p n =
              per_kind_precision max_type is_quantized (kind (nodes p n))
                (map (\<lambda>d. data_type (output_layout (nodes p d))) (dependencies (nodes p n)))
                (data_type (output_layout (nodes p n))))"
  using assms
  by (auto simp: get_inference_precision_def is_input_def Let_def length_filter_eq_iff
      list_ex_iff list_all_iff get_output_layout_const_def)

theorem get_inference_precision_fallback_witness:
  "dependencies (nodes precision_program 1) \<noteq> []
   \<and> \<not> valid_output_layout (nodes precision_program 0)
   \<and> get_inference_precision (\<lambda>_. Inl runtime_error) (\<lambda>a b. a) (\<lambda>_. False) precision_program 1
       = Inr f32
   \<and> dependencies (nodes precision_program 3) \<noteq> []
   \<and> get_inference_precision (\<lambda>_. Inl runtime_error) (\<lambda>a b. a) (\<lambda>_. False) precision_program 3
       = Inr f16"
proof -
  have d1: "dependencies (nodes precision_program 1) \<noteq> []"
    and d3: "dependencies (nodes precision_program 3) \<noteq> []"
    by (simp_all add: precision_program_def empty_program_def detached_node_def)
  from get_inference_precision_fallback [OF d1, of "\<lambda>_. Inl runtime_error" "\<lambda>a b. a" "\<lambda>_. False"]
    get_inference_precision_fallback [OF d3, of "\<lambda>_. Inl runtime_error" "\<lambda>a b. a" "\<lambda>_. False"]
    d1 d3
  show ?thesis
    by (simp add: precision_program_def empty_program_def detached_node_def plain_layout_def
        per_kind_precision_def is_quantize_def)
qed

text \<open>
  C8 as stated fails. The input node \<open>in\<close> has no valid output layout, and the answer
  is not f32: the node is an input, so its own layout is read before any validity test.
  If the const accessor fails on an invalid layout the call fails; if it yields the
  stored layout the answer is that layout's f16.
\<close>

theorem get_inference_precision_input_counterexample:
  "\<not> valid_output_layout (nodes precision_program 0)
   \<and> get_inference_precision (\<lambda>_. Inl runtime_error) (\<lambda>a b. a) (\<lambda>_. False) precision_program 0
       = Inl runtime_error
   \<and> get_inference_precision (\<lambda>n. Inr (output_layout n)) (\<lambda>a b. a) (\<lambda>_. False) precision_program 0
       = Inr f16"
  by (simp add: get_inference_precision_def is_input_def get_output_layout_const_def
      precision_program_def empty_program_def detached_node_def plain_layout_def)

text \<open>
  In general, a node without dependencies is answered with the data type of its own
  output layout, as the const accessor reads it, whatever the validity of that layout.
\<close>

lemma get_inference_precision_of_input:
  "dependencies (nodes p n) = [] \<Longrightarrow>
   get_inference_precision invalid_read max_type is_quantized p n
     = (case get_output_layout_const invalid_read (nodes p n) of
          Inl e \<Rightarrow> Inl e
        | Inr l \<Rightarrow> Inr (data_type l))"
  by (simp add: get_inference_precision_def is_input_def Let_def)

subsection \<open>The dependency loop of fuse\_nodes\<close>

lemma can_drop_input_table: "can_drop_input i q = quantize_drop_table i q"
  by (auto simp: can_drop_input_def quantize_drop_table_def)

lemma kept_upto_Suc:
  "kept_upto p f pe (Suc i) =
     kept_upto p f pe i @
       (if \<not> is_host p f (dependencies (nodes p pe) ! i) \<and> \<not> table_drops p pe i
        then [dependencies (nodes p pe) ! i] else [])"
  by (simp add: kept_upto_def)

lemma fuse_nodes_step_inv:
  assumes inv: "fuse_inv p f pe i (prog s)" and ne: "f \<noteq> pe"
  shows "fuse_inv p f pe (Suc i) (prog (fuse_nodes_step f pe i s))"
proof -
  let ?q = "prog s"
  let ?dep = "dependencies (nodes p pe) ! i"
  from inv have ids: "\<And>a. node_id (nodes ?q a) = node_id (nodes p a)"
    and kinds: "\<And>a. kind (nodes ?q a) = kind (nodes p a)"
    and pd: "dependencies (nodes ?q pe) = dependencies (nodes p pe)"
    and fd: "dependencies (nodes ?q f) = dependencies (nodes p f) @ kept_upto p f pe i"
    and us: "\<And>d. users (nodes ?q d)
             = users (nodes p d) @ replicate (count_list (kept_upto p f pe i) d) f"
    by (simp_all add: fuse_inv_def)
  have host: "(node_id (nodes ?q ?dep) = node_id (nodes ?q f)) = is_host p f ?dep"
    by (simp add: ids is_host_def)
  have drop: "drops_input ?q pe i = table_drops p pe i"
    by (simp add: drops_input_def table_drops_def kinds can_drop_input_table split: primitive_kind.split)
  show ?thesis
  proof (cases "is_host p f ?dep \<or> table_drops p pe i")
    case True
    then have "prog (fuse_nodes_step f pe i s) = ?q"
      using host drop by (auto simp: fuse_nodes_step_def Let_def pd)
    moreover from True have "kept_upto p f pe (Suc i) = kept_upto p f pe i"
      by (auto simp: kept_upto_Suc)
    ultimately show ?thesis using inv by (simp add: fuse_inv_def)
  next
    case False
    then have k: "kept_upto p f pe (Suc i) = kept_upto p f pe i @ [?dep]"
      by (simp add: kept_upto_Suc)
    from False host drop have st: "nodes (prog (fuse_nodes_step f pe i s)) =
        ((nodes ?q)(f := (nodes ?q f)\<lparr>dependencies := dependencies (nodes ?q f) @ [?dep]\<rparr>))
        (?dep := (((nodes ?q)(f := (nodes ?q f)\<lparr>dependencies := dependencies (nodes ?q f) @ [?dep]\<rparr>)) ?dep)
                  \<lparr>users := users (((nodes ?q)(f := (nodes ?q f)\<lparr>dependencies := dependencies (nodes ?q f) @ [?dep]\<rparr>)) ?dep) @ [f]\<rparr>)"
      by (simp add: fuse_nodes_step_def Let_def pd)
    show ?thesis
      unfolding fuse_inv_def st k
      using ne by (auto simp: ids kinds pd fd us replicate_append_same)
  qed
qed

lemma fuse_nodes_deps_loop_inv:
  assumes "fuse_inv p f pe i (prog s)" and "f \<noteq> pe" and "i \<le> length (dependencies (nodes p pe))"
  shows "\<exists>s'. fuse_nodes_deps_loop f pe i s = Some s'
            \<and> fuse_inv p f pe (length (dependencies (nodes p pe))) (prog s')"
  using assms
proof (induction "length (dependencies (nodes p pe)) - i" arbitrary: i s)
  case 0
  then have "i = length (dependencies (nodes p pe))" by simp
  moreover from "0.prems"(1) have "dependencies (nodes (prog s) pe) = dependencies (nodes p pe)"
    by (simp add: fuse_inv_def)
  ultimately show ?case using "0.prems"(1)
    by (subst fuse_nodes_deps_loop.simps) simp
next
  case (Suc k)
  then have lt: "i < length (dependencies (nodes p pe))" by simp
  from Suc.prems(1) have pd: "dependencies (nodes (prog s) pe) = dependencies (nodes p pe)"
    by (simp add: fuse_inv_def)
  have "\<exists>s'. fuse_nodes_deps_loop f pe (Suc i) (fuse_nodes_step f pe i s) = Some s'
            \<and> fuse_inv p f pe (length (dependencies (nodes p pe))) (prog s')"
    using Suc.hyps(2) lt fuse_nodes_step_inv [OF Suc.prems(1) Suc.prems(2)] Suc.prems(2)
    by (intro Suc.hyps(1)) simp_all
  then show ?case using lt pd by (subst fuse_nodes_deps_loop.simps) simp
qed

text \<open>
  C2. For a host and a peer that are two nodes, the loop ends, and it hands over to the
  host, in order, exactly the peer inputs that are not the host itself and that the
  drop table of section 4.10.1 does not drop (the table applies to a quantize peer with
  \<open>scale_shift_opt\<close> only): they are appended to the host's dependencies, and each of
  them gets the host appended to its users once per hand-over.
\<close>

theorem fuse_nodes_deps_loop_transfers:
  assumes "fused_node \<noteq> peer_node"
  shows "\<exists>s'. fuse_nodes_deps_loop fused_node peer_node 0 s = Some s'
          \<and> dependencies (nodes (prog s') fused_node)
              = dependencies (nodes (prog s) fused_node) @ transferred (prog s) fused_node peer_node
          \<and> (\<forall>d. users (nodes (prog s') d)
                = users (nodes (prog s) d)
                  @ replicate (count_list (transferred (prog s) fused_node peer_node) d) fused_node)"
proof -
  have "fuse_inv (prog s) fused_node peer_node 0 (prog s)"
    by (simp add: fuse_inv_def kept_upto_def)
  from fuse_nodes_deps_loop_inv [OF this assms]
  obtain s' where "fuse_nodes_deps_loop fused_node peer_node 0 s = Some s'"
    and "fuse_inv (prog s) fused_node peer_node (length (dependencies (nodes (prog s) peer_node))) (prog s')"
    by auto
  then show ?thesis by (auto simp: fuse_inv_def kept_upto_def transferred_def)
qed


lemma fuse_program_transferred: "transferred fuse_program 0 1 = [2, 3, 6, 8]"
  by code_simp

theorem fuse_nodes_deps_loop_transfers_witness:
  "(0::nat) \<noteq> 1
   \<and> (\<exists>s'. fuse_nodes_deps_loop 0 1 0 fuse_start = Some s'
         \<and> dependencies (nodes (prog s') 0) = [10, 11, 2, 3, 6, 8]
         \<and> users (nodes (prog s') 2) = [1, 0]
         \<and> users (nodes (prog s') 4) = [1])"
proof -
  have ne: "(0::nat) \<noteq> 1" by simp
  have t: "transferred (prog fuse_start) 0 1 = [2, 3, 6, 8]"
    by (simp only: fuse_start_def fuse_state.select_convs fuse_program_transferred)
  from fuse_nodes_deps_loop_transfers [OF ne, of fuse_start]
  obtain s' where l: "fuse_nodes_deps_loop 0 1 0 fuse_start = Some s'"
    and d: "dependencies (nodes (prog s') 0) = dependencies (nodes (prog fuse_start) 0) @ [2, 3, 6, 8]"
    and u: "\<And>d. users (nodes (prog s') d)
                = users (nodes (prog fuse_start) d) @ replicate (count_list [2, 3, 6, 8] d) 0"
    unfolding t by blast
  have "dependencies (nodes (prog s') 0) = [10, 11, 2, 3, 6, 8]"
    using d by (simp add: fuse_start_def fuse_program_def empty_program_def detached_node_def)
  moreover have "users (nodes (prog s') 2) = [1, 0]" "users (nodes (prog s') 4) = [1]"
    using u [of 2] u [of 4]
    by (simp_all add: fuse_start_def fuse_program_def empty_program_def detached_node_def)
  ultimately show ?thesis using l ne by blast
qed


subsection \<open>replace\<close>

lemma dedup_first_distinct: "distinct xs \<Longrightarrow> dedup_first xs = xs"
  by (induction xs rule: dedup_first.induct) (simp_all add: removeAll_id)

lemma set_dedup_first: "set (dedup_first xs) = set xs"
  by (induction xs rule: dedup_first.induct) auto

lemma replace_first_absent: "a \<notin> set xs \<Longrightarrow> replace_first a b xs = xs"
  by (induction xs) auto

lemma copy_step_deps:
  "old_node \<noteq> new_node \<Longrightarrow>
   dependencies (nodes (copy_step d old_node new_node p) a) =
     (if a = old_node then removeAll d (dependencies (nodes p old_node))
      else if a = new_node then dependencies (nodes p new_node) @ [d]
      else dependencies (nodes p a))"
  by (simp add: copy_step_def remove_connection_def add_connection_def Let_def)

lemma copy_step_users:
  "old_node \<noteq> new_node \<Longrightarrow>
   users (nodes (copy_step d old_node new_node p) a) =
     (if a = d then removeAll old_node (users (nodes p d)) @ [new_node]
      else users (nodes p a))"
  by (simp add: copy_step_def remove_connection_def add_connection_def Let_def)

lemma copy_step_frame:
  "node_id (nodes (copy_step d old_node new_node p) a) = node_id (nodes p a)"
  "is_output (nodes (copy_step d old_node new_node p) a) = is_output (nodes p a)"
  "is_constant (nodes (copy_step d old_node new_node p) a) = is_constant (nodes p a)"
  "data_flow (nodes (copy_step d old_node new_node p) a) = data_flow (nodes p a)"
  "user_mark (nodes (copy_step d old_node new_node p) a) = user_mark (nodes p a)"
  "output_layout (nodes (copy_step d old_node new_node p) a) = output_layout (nodes p a)"
  "valid_output_layout (nodes (copy_step d old_node new_node p) a) = valid_output_layout (nodes p a)"
  "nodes_map (copy_step d old_node new_node p) = nodes_map p"
  "outputs (copy_step d old_node new_node p) = outputs p"
  "processing_order (copy_step d old_node new_node p) = processing_order p"
  by (simp_all add: copy_step_def remove_connection_def add_connection_def Let_def)

lemma replace_copy_deps_unfold:
  "replace_copy_deps old_node new_node p =
     (case dependencies (nodes p old_node) of
        [] \<Rightarrow> p
      | d # _ \<Rightarrow> replace_copy_deps old_node new_node (copy_step d old_node new_node p))"
  by (subst replace_copy_deps.simps) (simp add: copy_step_def split: list.split)

lemma replace_copy_deps_preserves:
  assumes "\<And>d q. P (copy_step d old_node new_node q) = P q"
  shows "P (replace_copy_deps old_node new_node p) = P p"
  using assms
proof (induction old_node new_node p rule: replace_copy_deps.induct)
  case (1 old_node new_node p)
  show ?case
  proof (cases "dependencies (nodes p old_node)")
    case Nil
    then show ?thesis by (subst replace_copy_deps_unfold) simp
  next
    case (Cons d ds)
    then have ne: "dependencies (nodes p old_node) \<noteq> []" and hd: "hd (dependencies (nodes p old_node)) = d"
      by simp_all
    note IH = "1.IH" [OF ne "1.prems", unfolded hd, folded copy_step_def]
    show ?thesis
      by (subst replace_copy_deps_unfold) (simp add: Cons IH "1.prems")
  qed
qed

lemma replace_copy_deps_deps:
  assumes "old_node \<noteq> new_node"
  shows "dependencies (nodes (replace_copy_deps old_node new_node p) a) =
     (if a = old_node then []
      else if a = new_node
        then dependencies (nodes p new_node) @ dedup_first (dependencies (nodes p old_node))
      else dependencies (nodes p a))"
  using assms
proof (induction old_node new_node p rule: replace_copy_deps.induct)
  case (1 old_node new_node p)
  show ?case
  proof (cases "dependencies (nodes p old_node)")
    case Nil
    then show ?thesis by (subst replace_copy_deps_unfold) simp
  next
    case (Cons d ds)
    then have ne: "dependencies (nodes p old_node) \<noteq> []" and hd: "hd (dependencies (nodes p old_node)) = d"
      by simp_all
    note IH = "1.IH" [OF ne "1.prems", unfolded hd, folded copy_step_def]
    show ?thesis
      by (subst replace_copy_deps_unfold)
         (simp add: Cons IH copy_step_deps "1.prems")
  qed
qed

lemma replace_copy_deps_users:
  assumes "old_node \<noteq> new_node"
  shows "users (nodes (replace_copy_deps old_node new_node p) a) =
     (if a \<in> set (dependencies (nodes p old_node))
      then removeAll old_node (users (nodes p a)) @ [new_node]
      else users (nodes p a))"
  using assms
proof (induction old_node new_node p rule: replace_copy_deps.induct)
  case (1 old_node new_node p)
  show ?case
  proof (cases "dependencies (nodes p old_node)")
    case Nil
    then show ?thesis by (subst replace_copy_deps_unfold) simp
  next
    case (Cons d ds)
    then have ne: "dependencies (nodes p old_node) \<noteq> []" and hd: "hd (dependencies (nodes p old_node)) = d"
      by simp_all
    note IH = "1.IH" [OF ne "1.prems", unfolded hd, folded copy_step_def]
    show ?thesis
      by (subst replace_copy_deps_unfold)
         (auto simp add: Cons IH copy_step_deps copy_step_users "1.prems")
  qed
qed

lemma move_user_users:
  "users (nodes (replace_move_user old_node new_node q u) a) =
     (if a = new_node then users (nodes q new_node) @ [u] else users (nodes q a))"
  by (simp add: replace_move_user_def Let_def)

lemma move_user_deps:
  "dependencies (nodes (replace_move_user old_node new_node q u) a) =
     (if a = u then replace_first old_node new_node (dependencies (nodes q u))
      else dependencies (nodes q a))"
  by (simp add: replace_move_user_def Let_def)

lemma move_user_frame:
  "node_id (nodes (replace_move_user old_node new_node q u) a) = node_id (nodes q a)"
  "is_output (nodes (replace_move_user old_node new_node q u) a) = is_output (nodes q a)"
  "is_constant (nodes (replace_move_user old_node new_node q u) a) = is_constant (nodes q a)"
  "data_flow (nodes (replace_move_user old_node new_node q u) a) = data_flow (nodes q a)"
  "user_mark (nodes (replace_move_user old_node new_node q u) a) = user_mark (nodes q a)"
  "output_layout (nodes (replace_move_user old_node new_node q u) a) = output_layout (nodes q a)"
  "valid_output_layout (nodes (replace_move_user old_node new_node q u) a) = valid_output_layout (nodes q a)"
  "nodes_map (replace_move_user old_node new_node q u) = nodes_map q"
  "outputs (replace_move_user old_node new_node q u) = outputs q"
  "processing_order (replace_move_user old_node new_node q u) = processing_order q"
  by (simp_all add: replace_move_user_def Let_def)

lemma move_users_preserves:
  assumes "\<And>q u. P (replace_move_user old_node new_node q u) = P q"
  shows "P (foldl (replace_move_user old_node new_node) q us) = P q"
  by (induction us arbitrary: q) (simp_all add: assms)

lemma move_users_users:
  "users (nodes (foldl (replace_move_user old_node new_node) q us) a) =
     (if a = new_node then users (nodes q new_node) @ us else users (nodes q a))"
  by (induction us arbitrary: q) (simp_all add: move_user_users)

lemma move_users_deps:
  "old_node \<notin> set (dependencies (nodes q a)) \<Longrightarrow>
   dependencies (nodes (foldl (replace_move_user old_node new_node) q us) a) = dependencies (nodes q a)"
proof (induction us arbitrary: q)
  case Nil
  then show ?case by simp
next
  case (Cons u us)
  have eq: "dependencies (nodes (replace_move_user old_node new_node q u) a) = dependencies (nodes q a)"
    using Cons.prems by (auto simp add: move_user_deps replace_first_absent)
  with Cons.prems Cons.IH [of "replace_move_user old_node new_node q u"] show ?case by simp
qed

lemma take_over_effect:
  assumes ne: "old_node \<noteq> new_node"
      and valid: "valid_output_layout (nodes p old_node)"
      and nd: "dependencies (nodes p new_node) = []"
      and nu: "users (nodes p new_node) = []"
      and no_self: "old_node \<notin> set (dependencies (nodes p old_node))"
      and no_new: "new_node \<notin> set (dependencies (nodes p old_node))"
  shows "dependencies (nodes (replace_take_over calc_layout old_node new_node p) new_node)
           = dedup_first (dependencies (nodes p old_node))"
    and "users (nodes (replace_take_over calc_layout old_node new_node p) new_node)
           = users (nodes p old_node)"
    and "dependencies (nodes (replace_take_over calc_layout old_node new_node p) old_node) = []"
    and "users (nodes (replace_take_over calc_layout old_node new_node p) old_node) = []"
    and "output_layout (nodes (replace_take_over calc_layout old_node new_node p) new_node)
           = output_layout (nodes p old_node)"
    and "valid_output_layout (nodes (replace_take_over calc_layout old_node new_node p) new_node)
           = valid_output_layout (nodes p old_node)"
proof -
  define p2 where "p2 = p\<lparr>nodes := (nodes p)(new_node := (nodes p new_node)
      \<lparr>output_layout := output_layout (nodes p old_node),
       valid_output_layout := valid_output_layout (nodes p old_node)\<rparr>)\<rparr>"
  define p3 where "p3 = replace_copy_deps old_node new_node p2"
  define p4 where "p4 = foldl (replace_move_user old_node new_node) p3 (users (nodes p3 old_node))"
  have to: "replace_take_over calc_layout old_node new_node p
      = p4\<lparr>nodes := (nodes p4)(old_node := (nodes p4 old_node)\<lparr>users := []\<rparr>)\<rparr>"
    using valid ne
    by (simp add: replace_take_over_def get_output_layout_def Let_def p4_def p3_def p2_def)
  have d2: "dependencies (nodes p2 a) = dependencies (nodes p a)"
    and u2: "users (nodes p2 a) = users (nodes p a)" for a
    by (simp_all add: p2_def)
  have d3n: "dependencies (nodes p3 new_node) = dedup_first (dependencies (nodes p old_node))"
    and d3o: "dependencies (nodes p3 old_node) = []"
    using ne by (simp_all add: p3_def replace_copy_deps_deps d2 nd)
  have u3o: "users (nodes p3 old_node) = users (nodes p old_node)"
    and u3n: "users (nodes p3 new_node) = []"
    using ne no_self no_new by (simp_all add: p3_def replace_copy_deps_users d2 u2 nu)
  have l3: "output_layout (nodes p3 new_node) = output_layout (nodes p old_node)"
    unfolding p3_def
    by (subst replace_copy_deps_preserves [where P = "\<lambda>q. output_layout (nodes q new_node)"])
       (simp_all add: copy_step_frame p2_def)
  have v3: "valid_output_layout (nodes p3 new_node) = valid_output_layout (nodes p old_node)"
    unfolding p3_def
    by (subst replace_copy_deps_preserves [where P = "\<lambda>q. valid_output_layout (nodes q new_node)"])
       (simp_all add: copy_step_frame p2_def)
  have o3: "old_node \<notin> set (dependencies (nodes p3 new_node))"
    using no_self by (simp add: d3n set_dedup_first)
  show "dependencies (nodes (replace_take_over calc_layout old_node new_node p) new_node)
           = dedup_first (dependencies (nodes p old_node))"
    using ne o3 by (simp add: to p4_def move_users_deps d3n)
  show "users (nodes (replace_take_over calc_layout old_node new_node p) new_node)
           = users (nodes p old_node)"
    using ne by (simp add: to p4_def move_users_users u3n u3o)
  show "dependencies (nodes (replace_take_over calc_layout old_node new_node p) old_node) = []"
    by (simp add: to p4_def move_users_deps d3o)
  show "users (nodes (replace_take_over calc_layout old_node new_node p) old_node) = []"
    by (simp add: to)
  show "output_layout (nodes (replace_take_over calc_layout old_node new_node p) new_node)
           = output_layout (nodes p old_node)"
    using ne unfolding to p4_def
    by (simp add: move_users_preserves [where P = "\<lambda>q. output_layout (nodes q new_node)"]
        move_user_frame l3)
  show "valid_output_layout (nodes (replace_take_over calc_layout old_node new_node p) new_node)
           = valid_output_layout (nodes p old_node)"
    using ne unfolding to p4_def
    by (simp add: move_users_preserves [where P = "\<lambda>q. valid_output_layout (nodes q new_node)"]
        move_user_frame v3)
qed


lemma take_over_unfold:
  assumes "old_node \<noteq> new_node" and "valid_output_layout (nodes p old_node)"
  shows "replace_take_over calc_layout old_node new_node p =
     (let p2 = p\<lparr>nodes := (nodes p)(new_node := (nodes p new_node)
                 \<lparr>output_layout := output_layout (nodes p old_node),
                  valid_output_layout := valid_output_layout (nodes p old_node)\<rparr>)\<rparr>;
          p3 = replace_copy_deps old_node new_node p2;
          p4 = foldl (replace_move_user old_node new_node) p3 (users (nodes p3 old_node))
      in p4\<lparr>nodes := (nodes p4)(old_node := (nodes p4 old_node)\<lparr>users := []\<rparr>)\<rparr>)"
  using assms by (simp add: replace_take_over_def get_output_layout_def Let_def)

lemma copy_step_node_frame:
  assumes "\<And>n us. f (n\<lparr>users := us\<rparr>) = f n" and "\<And>n ds. f (n\<lparr>dependencies := ds\<rparr>) = f n"
  shows "f (nodes (copy_step d old_node new_node q) a) = f (nodes q a)"
  by (simp add: copy_step_def remove_connection_def add_connection_def Let_def assms)

lemma move_user_node_frame:
  assumes "\<And>n us. f (n\<lparr>users := us\<rparr>) = f n" and "\<And>n ds. f (n\<lparr>dependencies := ds\<rparr>) = f n"
  shows "f (nodes (replace_move_user old_node new_node q u) a) = f (nodes q a)"
  by (simp add: replace_move_user_def Let_def assms)

lemma take_over_node_frame:
  assumes ne: "old_node \<noteq> new_node" and valid: "valid_output_layout (nodes p old_node)"
      and fu: "\<And>n us. f (n\<lparr>users := us\<rparr>) = f n"
      and fd: "\<And>n ds. f (n\<lparr>dependencies := ds\<rparr>) = f n"
      and fl: "\<And>n l v. f (n\<lparr>output_layout := l, valid_output_layout := v\<rparr>) = f n"
  shows "f (nodes (replace_take_over calc_layout old_node new_node p) a) = f (nodes p a)"
proof -
  define p2 where "p2 = p\<lparr>nodes := (nodes p)(new_node := (nodes p new_node)
      \<lparr>output_layout := output_layout (nodes p old_node),
       valid_output_layout := valid_output_layout (nodes p old_node)\<rparr>)\<rparr>"
  define p3 where "p3 = replace_copy_deps old_node new_node p2"
  define p4 where "p4 = foldl (replace_move_user old_node new_node) p3 (users (nodes p3 old_node))"
  have to: "replace_take_over calc_layout old_node new_node p
      = p4\<lparr>nodes := (nodes p4)(old_node := (nodes p4 old_node)\<lparr>users := []\<rparr>)\<rparr>"
    using take_over_unfold [OF ne valid, of calc_layout] by (simp add: Let_def p4_def p3_def p2_def)
  have 2: "f (nodes p2 a) = f (nodes p a)" by (simp add: p2_def fl)
  have 3: "f (nodes p3 a) = f (nodes p2 a)" unfolding p3_def
    by (rule replace_copy_deps_preserves [where P = "\<lambda>q. f (nodes q a)"])
       (rule copy_step_node_frame [OF fu fd])
  have 4: "f (nodes p4 a) = f (nodes p3 a)" unfolding p4_def
    by (rule move_users_preserves [where P = "\<lambda>q. f (nodes q a)"])
       (rule move_user_node_frame [OF fu fd])
  from 2 3 4 have "f (nodes p4 a) = f (nodes p a)" by simp
  then show ?thesis by (auto simp add: to fu)
qed

lemma take_over_prog_frame:
  assumes ne: "old_node \<noteq> new_node" and valid: "valid_output_layout (nodes p old_node)"
      and fn: "\<And>q ns. P (q\<lparr>nodes := ns\<rparr>) = P q"
  shows "P (replace_take_over calc_layout old_node new_node p) = P p"
proof -
  define p2 where "p2 = p\<lparr>nodes := (nodes p)(new_node := (nodes p new_node)
      \<lparr>output_layout := output_layout (nodes p old_node),
       valid_output_layout := valid_output_layout (nodes p old_node)\<rparr>)\<rparr>"
  define p3 where "p3 = replace_copy_deps old_node new_node p2"
  define p4 where "p4 = foldl (replace_move_user old_node new_node) p3 (users (nodes p3 old_node))"
  have to: "replace_take_over calc_layout old_node new_node p
      = p4\<lparr>nodes := (nodes p4)(old_node := (nodes p4 old_node)\<lparr>users := []\<rparr>)\<rparr>"
    using take_over_unfold [OF ne valid, of calc_layout] by (simp add: Let_def p4_def p3_def p2_def)
  have 2: "P p2 = P p" by (simp add: p2_def fn)
  have 3: "P p3 = P p2" unfolding p3_def
    by (rule replace_copy_deps_preserves)
       (simp add: copy_step_def remove_connection_def add_connection_def Let_def fn)
  have 4: "P p4 = P p3" unfolding p4_def
    by (rule move_users_preserves) (simp add: replace_move_user_def Let_def fn)
  show ?thesis by (simp add: to fn 2 3 4)
qed

lemma copy_state_effect:
  assumes "old_node \<noteq> new_node"
  shows "fst (replace_copy_state old_node new_node q) = is_output (nodes q old_node)"
    and "dependencies (nodes (snd (replace_copy_state old_node new_node q)) a) = dependencies (nodes q a)"
    and "users (nodes (snd (replace_copy_state old_node new_node q)) a) = users (nodes q a)"
    and "node_id (nodes (snd (replace_copy_state old_node new_node q)) a) = node_id (nodes q a)"
    and "output_layout (nodes (snd (replace_copy_state old_node new_node q)) a) = output_layout (nodes q a)"
    and "valid_output_layout (nodes (snd (replace_copy_state old_node new_node q)) a)
           = valid_output_layout (nodes q a)"
    and "is_output (nodes (snd (replace_copy_state old_node new_node q)) a)
           = (if a = old_node then False else is_output (nodes q a))"
    and "is_constant (nodes (snd (replace_copy_state old_node new_node q)) new_node)
           = is_constant (nodes q old_node)"
    and "data_flow (nodes (snd (replace_copy_state old_node new_node q)) new_node)
           = data_flow (nodes q old_node)"
    and "user_mark (nodes (snd (replace_copy_state old_node new_node q)) new_node)
           = user_mark (nodes q old_node)"
    and "nodes_map (snd (replace_copy_state old_node new_node q)) = nodes_map q"
    and "processing_order (snd (replace_copy_state old_node new_node q)) = processing_order q"
    and "outputs (snd (replace_copy_state old_node new_node q))
           = (if is_output (nodes q old_node) then removeAll old_node (outputs q) else outputs q)"
  using assms by (simp_all add: replace_copy_state_def Let_def)

lemma insert_before_mem: "key \<in> set po \<Longrightarrow> key \<in> set (insert_before key n po)"
  by (induction po) auto

lemma remove1_insert_before:
  "key \<noteq> n \<Longrightarrow> remove1 key (insert_before key n po) = replace_first key n po"
  by (induction po) auto

lemma finish_effect:
  assumes ne: "old_node \<noteq> new_node"
      and po: "old_node \<in> set (processing_order q)"
      and reg: "nodes_map q (node_id (nodes q new_node)) = Some x"
      and ids: "node_id (nodes q new_node) \<noteq> ident"
      and out: "\<not> is_output (nodes q new_node)"
  shows "\<exists>p'. replace_finish ident w old_node new_node q = Inr p'
          \<and> processing_order p' = replace_first old_node new_node (processing_order q)
          \<and> nodes_map p' = ((nodes_map q)(ident \<mapsto> x))(node_id (nodes q new_node) := None)
          \<and> node_id (nodes p' new_node) = ident
          \<and> is_output (nodes p' new_node) = w
          \<and> outputs p' = (if w then outputs q @ [new_node] else outputs q)
          \<and> dependencies (nodes p' new_node) = dependencies (nodes q new_node)
          \<and> users (nodes p' new_node) = users (nodes q new_node)
          \<and> output_layout (nodes p' new_node) = output_layout (nodes q new_node)
          \<and> valid_output_layout (nodes p' new_node) = valid_output_layout (nodes q new_node)
          \<and> is_constant (nodes p' new_node) = is_constant (nodes q new_node)
          \<and> data_flow (nodes p' new_node) = data_flow (nodes q new_node)
          \<and> user_mark (nodes p' new_node) = user_mark (nodes q new_node)"
  using assms
  by (simp add: replace_finish_def po_insert_def Let_def insert_before_mem po_erase_def
      remove1_insert_before rename_def)


text \<open>
  What \<open>replace\<close> does when it succeeds, for a detached replacement that is registered
  in the id-map under an id of its own, and an old node with a valid layout that is in
  the processing order and does not depend on itself: the new node gets the old node's
  users, layout, flags, id, slot in the processing order and output mark. Of the old
  node's dependencies it gets each node once, in the order of first occurrence.
\<close>

lemma replace_takes_over:
  assumes ne: "old_node \<noteq> new_node"
      and valid: "valid_output_layout (nodes p old_node)"
      and nd: "dependencies (nodes p new_node) = []"
      and nu: "users (nodes p new_node) = []"
      and nout: "\<not> is_output (nodes p new_node)"
      and no_self: "old_node \<notin> set (dependencies (nodes p old_node))"
      and no_new: "new_node \<notin> set (dependencies (nodes p old_node))"
      and po: "old_node \<in> set (processing_order p)"
      and reg: "nodes_map p (node_id (nodes p new_node)) = Some x"
      and ids: "node_id (nodes p new_node) \<noteq> node_id (nodes p old_node)"
  shows "\<exists>p'. replace calc_layout old_node new_node p = Inr p'
          \<and> dependencies (nodes p' new_node) = dedup_first (dependencies (nodes p old_node))
          \<and> users (nodes p' new_node) = users (nodes p old_node)
          \<and> output_layout (nodes p' new_node) = output_layout (nodes p old_node)
          \<and> valid_output_layout (nodes p' new_node) = valid_output_layout (nodes p old_node)
          \<and> is_constant (nodes p' new_node) = is_constant (nodes p old_node)
          \<and> data_flow (nodes p' new_node) = data_flow (nodes p old_node)
          \<and> user_mark (nodes p' new_node) = user_mark (nodes p old_node)
          \<and> node_id (nodes p' new_node) = node_id (nodes p old_node)
          \<and> nodes_map p' = ((nodes_map p)(node_id (nodes p old_node) \<mapsto> x))
                              (node_id (nodes p new_node) := None)
          \<and> processing_order p' = replace_first old_node new_node (processing_order p)
          \<and> is_output (nodes p' new_node) = is_output (nodes p old_node)
          \<and> outputs p' = (if is_output (nodes p old_node)
                          then removeAll old_node (outputs p) @ [new_node] else outputs p)"
proof -
  define p5 where "p5 = replace_take_over calc_layout old_node new_node p"
  define w where "w = fst (replace_copy_state old_node new_node p5)"
  define p9 where "p9 = snd (replace_copy_state old_node new_node p5)"
  note eff = take_over_effect [OF ne valid nd nu no_self no_new, of calc_layout, folded p5_def]
  have id5: "node_id (nodes p5 a) = node_id (nodes p a)" for a
    unfolding p5_def by (rule take_over_node_frame [OF ne valid]) simp_all
  have out5: "is_output (nodes p5 a) = is_output (nodes p a)" for a
    unfolding p5_def by (rule take_over_node_frame [OF ne valid]) simp_all
  have c5: "is_constant (nodes p5 a) = is_constant (nodes p a)" for a
    unfolding p5_def by (rule take_over_node_frame [OF ne valid]) simp_all
  have f5: "data_flow (nodes p5 a) = data_flow (nodes p a)" for a
    unfolding p5_def by (rule take_over_node_frame [OF ne valid]) simp_all
  have m5: "user_mark (nodes p5 a) = user_mark (nodes p a)" for a
    unfolding p5_def by (rule take_over_node_frame [OF ne valid]) simp_all
  have map5: "nodes_map p5 = nodes_map p"
    unfolding p5_def by (rule take_over_prog_frame [OF ne valid]) simp
  have outs5: "outputs p5 = outputs p"
    unfolding p5_def by (rule take_over_prog_frame [OF ne valid]) simp
  have po5: "processing_order p5 = processing_order p"
    unfolding p5_def by (rule take_over_prog_frame [OF ne valid]) simp
  note cs = copy_state_effect [OF ne, of p5, folded w_def p9_def]
  have w: "w = is_output (nodes p old_node)" by (simp add: cs out5)
  have 1: "old_node \<in> set (processing_order p9)" by (simp add: cs po5 po)
  have 2: "nodes_map p9 (node_id (nodes p9 new_node)) = Some x" by (simp add: cs map5 id5 reg)
  have 3: "node_id (nodes p9 new_node) \<noteq> node_id (nodes p old_node)" by (simp add: cs id5 ids)
  have 4: "\<not> is_output (nodes p9 new_node)" using ne by (simp add: cs out5 nout)
  have r: "replace calc_layout old_node new_node p
      = replace_finish (node_id (nodes p old_node)) w old_node new_node p9"
    by (simp add: replace_def nd nu nout Let_def p5_def w_def p9_def split_beta)
  from finish_effect [OF ne 1 2 3 4, of w] obtain p' where
    p': "replace_finish (node_id (nodes p old_node)) w old_node new_node p9 = Inr p'"
      "processing_order p' = replace_first old_node new_node (processing_order p9)"
      "nodes_map p' = ((nodes_map p9)(node_id (nodes p old_node) \<mapsto> x))(node_id (nodes p9 new_node) := None)"
      "node_id (nodes p' new_node) = node_id (nodes p old_node)"
      "is_output (nodes p' new_node) = w"
      "outputs p' = (if w then outputs p9 @ [new_node] else outputs p9)"
      "dependencies (nodes p' new_node) = dependencies (nodes p9 new_node)"
      "users (nodes p' new_node) = users (nodes p9 new_node)"
      "output_layout (nodes p' new_node) = output_layout (nodes p9 new_node)"
      "valid_output_layout (nodes p' new_node) = valid_output_layout (nodes p9 new_node)"
      "is_constant (nodes p' new_node) = is_constant (nodes p9 new_node)"
      "data_flow (nodes p' new_node) = data_flow (nodes p9 new_node)"
      "user_mark (nodes p' new_node) = user_mark (nodes p9 new_node)"
    by blast
  show ?thesis
    apply (rule exI [of _ p'])
    apply (simp only: r p')
    apply (simp add: cs eff id5 out5 c5 f5 m5 map5 outs5 po5 w)
    done
qed


text \<open>The first half of C6: a replacement that is not detached is refused before any change.\<close>

lemma replace_not_detached_fails:
  "dependencies (nodes p new_node) \<noteq> [] \<or> users (nodes p new_node) \<noteq> []
   \<Longrightarrow> replace calc_layout old_node new_node p = Inl (invalid_argument, p)"
  by (simp add: replace_def)

text \<open>
  C6, at the input where the code departs from it. The old node reads \<open>d\<close> through both
  of its inputs. \<open>replace\<close> succeeds, and the new node has one dependency, not two: the
  first loop connects \<open>d\<close> to the new node once and \<open>remove_connection\<close> then takes
  every occurrence of \<open>d\<close> out of the old node's dependencies.
\<close>

theorem replace_duplicate_dependency:
  "dependencies (nodes dup_program 1) = [0, 0]
   \<and> users (nodes dup_program 1) = [3]
   \<and> edges_after 2 (replace (\<lambda>n p. (plain_layout f32, p)) 1 2 dup_program) = Inr ([0], [3])"
proof -
  have d: "dependencies (nodes dup_program 1) = [0, 0]" and u: "users (nodes dup_program 1) = [3]"
    by (simp_all add: dup_program_def empty_program_def detached_node_def)
  have h: "(1::nat) \<noteq> 2" "valid_output_layout (nodes dup_program 1)"
    "dependencies (nodes dup_program 2) = []" "users (nodes dup_program 2) = []"
    "\<not> is_output (nodes dup_program 2)"
    "1 \<notin> set (dependencies (nodes dup_program 1))"
    "2 \<notin> set (dependencies (nodes dup_program 1))"
    "1 \<in> set (processing_order dup_program)"
    "nodes_map dup_program (node_id (nodes dup_program 2)) = Some 2"
    "node_id (nodes dup_program 2) \<noteq> node_id (nodes dup_program 1)"
    by (simp_all add: dup_program_def empty_program_def detached_node_def)
  from replace_takes_over [OF h, of "\<lambda>n p. (plain_layout f32, p)"]
  obtain p' where "replace (\<lambda>n p. (plain_layout f32, p)) 1 2 dup_program = Inr p'"
    and "dependencies (nodes p' 2) = dedup_first (dependencies (nodes dup_program 1))"
    and "users (nodes p' 2) = users (nodes dup_program 1)"
    by blast
  moreover have "dependencies (nodes dup_program (Suc 0)) = [0, 0]"
    and "users (nodes dup_program (Suc 0)) = [3]"
    using d u by simp_all
  ultimately show ?thesis by (simp add: edges_after_def)
qed


text \<open>Hence the new node does not have the dependency list the old node had.\<close>

theorem replace_duplicate_dependency_witness:
  "edges_after 2 (replace (\<lambda>n p. (plain_layout f32, p)) 1 2 dup_program)
     \<noteq> Inr (dependencies (nodes dup_program 1), users (nodes dup_program 1))"
  using replace_duplicate_dependency by simp

subsection \<open>analyze\_output\_size\_handling\_need\<close>

lemma pooling_window_upto:
  "k \<le> length sz \<Longrightarrow>
   foldl (\<lambda>t i. t\<lparr>spatial := (spatial t)[i := int (sz ! (length sz - i - 1))]\<rparr>) t0 [0 ..< k]
     = t0\<lparr>spatial := map (\<lambda>i. if i < k then int (rev sz ! i) else spatial t0 ! i)
                         [0 ..< length (spatial t0)]\<rparr>"
proof (induction k)
  case 0
  then show ?case by (simp add: map_nth)
next
  case (Suc k)
  then have k: "k < length sz" by simp
  have "(map (\<lambda>i. if i < k then int (rev sz ! i) else spatial t0 ! i) [0 ..< length (spatial t0)])
          [k := int (sz ! (length sz - k - 1))]
        = map (\<lambda>i. if i < Suc k then int (rev sz ! i) else spatial t0 ! i)
            [0 ..< length (spatial t0)]"
    using k by (intro nth_equalityI) (auto simp: nth_list_update rev_nth less_Suc_eq)
  then show ?case
    using Suc by simp
qed

lemma pooling_window_shape: "pooling_window env sz = window_shape env sz"
  unfolding pooling_window_def window_shape_def Let_def
  by (rule pooling_window_upto) simp

lemma specified_declared: "specified_output_range env t = declared_range env t"
  by (simp add: specified_output_range_def declared_range_def)

lemma node_check_mismatch:
  assumes "check_succeeds env p node"
  shows "node_check env p node = Inr (size_mismatch env p node)"
proof (cases "kind (nodes p node)")
  case (convolution prim)
  with assms show ?thesis
    by (auto simp: check_succeeds_def node_check_def size_mismatch_def declared_output_size_def
        computed_range_def current_shapes_def calculated_def conv_calc_range_def differs_def
        specified_declared split: sum.splits if_splits)
next
  case (binary_convolution prim)
  with assms show ?thesis
    by (auto simp: check_succeeds_def node_check_def size_mismatch_def declared_output_size_def
        computed_range_def current_shapes_def calculated_def conv_calc_range_def differs_def
        specified_declared split: sum.splits if_splits)
next
  case (deconvolution prim)
  with assms show ?thesis
    by (auto simp: check_succeeds_def node_check_def size_mismatch_def declared_output_size_def
        computed_range_def current_shapes_def calculated_def deconv_calc_range_def differs_def
        specified_declared map_replicate_const split: sum.splits if_splits)
next
  case (pooling prim)
  with assms show ?thesis
    by (auto simp: check_succeeds_def node_check_def size_mismatch_def declared_output_size_def
        computed_range_def pooling_shapes_def calculated_def pooling_calc_range_def differs_def
        specified_declared map_replicate_const pooling_window_shape split: sum.splits if_splits)
qed (simp_all add: node_check_def size_mismatch_def declared_output_size_def)

lemma analyze_loop_flag:
  "list_all (check_succeeds env p) ns \<Longrightarrow>
   analyze_loop env p ns h = Inr (h \<or> list_ex (size_mismatch env p) ns)"
  by (induction ns arbitrary: h) (auto simp: node_check_mismatch)

lemma analyze_loop_throws:
  "\<not> list_all (check_succeeds env p) ns \<Longrightarrow> \<exists>e. analyze_loop env p ns h = Inl e"
  by (induction ns arbitrary: h) (auto simp: check_succeeds_def split: sum.splits)

text \<open>
  C5. When the analysis returns (no shape accessor and no calculator throws for a node
  it checks), it returns true if and only if some node of the processing order is a
  convolution, binary convolution, deconvolution or pooling whose descriptor declares a
  desired output size and whose declared output range differs from the range computed
  by the sliding-window calculators over the current input and filter shapes: mode all
  for convolution and binary convolution, exceed\_once\_data for pooling, the needed
  input range for deconvolution.
\<close>

theorem analyze_output_size_handling_need_flag:
  assumes "list_all (check_succeeds env p) (processing_order p)"
  shows "analyze_output_size_handling_need env p
           = Inr (list_ex (size_mismatch env p) (processing_order p))"
  using analyze_loop_flag [OF assms, of False]
  by (simp add: analyze_output_size_handling_need_def)

lemma window_program_nodes:
  "kind (nodes window_program 0) = input_layout"
  "kind (nodes window_program (Suc 0)) = data"
  "nodes window_program 2 = (detached_node ''c'' (convolution
                   \<lparr>conv_with_output_size = True, conv_output_size = shape 1 1 [3, 3, 1],
                    conv_pad = [0, 0, 0], conv_stride = [2, 2, 1], conv_dilation = [1, 1, 1],
                    conv_groups = 1, conv_split = 1, conv_deformable_mode = False,
                    conv_weights_zero_points_term = False,
                    conv_activations_zero_points_term = False\<rparr>))
                  \<lparr>dependencies := [0, 1]\<rparr>"
  "nodes window_program 3 = (detached_node ''b'' (binary_convolution
                   \<lparr>bconv_output_size = shape 1 1 [3, 3, 1], bconv_pad = [0, 0, 0],
                    bconv_stride = [2, 2, 1], bconv_dilation = [1, 1, 1]\<rparr>))
                  \<lparr>dependencies := [0, 1]\<rparr>"
  "nodes window_program 4 = (detached_node ''d'' (deconvolution
                   \<lparr>deconv_with_output_size = True, deconv_output_size = shape 1 1 [17, 17, 1],
                    deconv_pad = [0, 0, 0], deconv_stride = [2, 2, 1]\<rparr>))
                  \<lparr>dependencies := [0, 1]\<rparr>"
  "nodes window_program 5 = (detached_node ''p1'' (pooling
                   \<lparr>pool_with_output_size = True, pool_output_size = shape 1 1 [4, 4, 1],
                    pool_size = [1, 3, 2], pool_pad = [0, 0, 0], pool_stride = [2, 2, 1]\<rparr>))
                  \<lparr>dependencies := [0]\<rparr>"
  "nodes window_program 6 = (detached_node ''p2'' (pooling
                   \<lparr>pool_with_output_size = True, pool_output_size = shape 1 1 [4, 3, 1],
                    pool_size = [1, 3, 2], pool_pad = [0, 0, 0], pool_stride = [2, 2, 1]\<rparr>))
                  \<lparr>dependencies := [0]\<rparr>"
  "get_tensor (output_layout (nodes window_program 0)) = shape 1 1 [8, 8, 1]"
  "get_tensor (output_layout (nodes window_program (Suc 0))) = shape 1 1 [3, 3, 1]"
  by (simp_all add: window_program_def empty_program_def detached_node_def)

lemma window_program_checks:
  "node_check window_env window_program 0 = Inr False"
  "node_check window_env window_program (Suc 0) = Inr False"
  "node_check window_env window_program 2 = Inr False"
  "node_check window_env window_program 3 = Inr False"
  "node_check window_env window_program 4 = Inr False"
  "node_check window_env window_program 5 = Inr False"
  "node_check window_env window_program 6 = Inr True"
  by (simp_all add: node_check_def window_program_nodes detached_node_def differs_def
      conv_calc_range_def deconv_calc_range_def pooling_calc_range_def pooling_window_def
      window_env_def specified_output_range_def along_axes_def shape_def)

theorem analyze_output_size_handling_need_flag_witness:
  "list_all (check_succeeds window_env window_program) (processing_order window_program)
   \<and> analyze_output_size_handling_need window_env window_program = Inr True
   \<and> \<not> size_mismatch window_env window_program 2
   \<and> \<not> size_mismatch window_env window_program 3
   \<and> \<not> size_mismatch window_env window_program 4
   \<and> \<not> size_mismatch window_env window_program 5
   \<and> size_mismatch window_env window_program 6"
proof -
  have po: "processing_order window_program = [0, Suc 0, 2, 3, 4, 5, 6]"
    by (simp add: window_program_def empty_program_def)
  have cs: "check_succeeds window_env window_program 0"
    "check_succeeds window_env window_program (Suc 0)"
    "check_succeeds window_env window_program 2"
    "check_succeeds window_env window_program 3"
    "check_succeeds window_env window_program 4"
    "check_succeeds window_env window_program 5"
    "check_succeeds window_env window_program 6"
    by (simp_all add: check_succeeds_def window_program_checks)
  have ok: "list_all (check_succeeds window_env window_program) (processing_order window_program)"
    by (simp add: po cs)
  have m: "\<not> size_mismatch window_env window_program 2"
    "\<not> size_mismatch window_env window_program 3"
    "\<not> size_mismatch window_env window_program 4"
    "\<not> size_mismatch window_env window_program 5"
    "size_mismatch window_env window_program 6"
    by (simp_all add: size_mismatch_def declared_output_size_def computed_range_def
        current_shapes_def pooling_shapes_def window_shape_def calculated_def declared_range_def
        window_program_nodes detached_node_def window_env_def along_axes_def shape_def Let_def)
  from analyze_output_size_handling_need_flag [OF ok] ok m show ?thesis
    by (simp add: po)
qed

subsection \<open>Single-precision rounding\<close>

text \<open>
  The rounding is within half a unit of the last place, exact on the integers below
  \<open>2^24\<close>, and a rounded product exceeds one half exactly when the product exceeds the
  midpoint between one half and the next binary32 number above it.
\<close>

lemma two_to_powi: "two_to e = 2 powi e"
  by (simp add: two_to_def power_int_def inverse_eq_divide power_one_over)

lemma two_to_pos: "0 < two_to e"
  by (simp add: two_to_powi)

lemma two_to_add: "two_to (a + b) = two_to a * two_to b"
  by (simp add: two_to_powi power_int_add)

lemma two_to_numeral: "two_to 23 = 2 ^ 23" "two_to 1 = 2" "two_to 0 = 1"
  by (simp_all add: two_to_def)

lemma two_to_mono: "a \<le> b \<Longrightarrow> two_to a \<le> two_to b"
  by (simp add: two_to_powi power_int_increasing)

lemma f32_exponent_bounds:
  assumes "0 < x"
  shows "two_to (f32_exponent x) \<le> x \<and> x < two_to (f32_exponent x + 1)"
proof (cases "1 \<le> x")
  case True
  define b where "b = bitlen \<lfloor>x\<rfloor>"
  from True have fl: "0 < \<lfloor>x\<rfloor>" by simp
  from bitlen_bounds [OF fl] have lo: "2 ^ nat (b - 1) \<le> \<lfloor>x\<rfloor>" and hi: "\<lfloor>x\<rfloor> < 2 ^ nat b"
    by (simp_all add: b_def)
  have b1: "1 \<le> b"
  proof (rule ccontr)
    assume "\<not> 1 \<le> b"
    then have "nat b = 0" by simp
    with hi fl show False by simp
  qed
  have e: "f32_exponent x = b - 1" using True by (simp add: f32_exponent_def b_def)
  from lo have "of_int (2 ^ nat (b - 1)) \<le> x" by (simp only: le_floor_iff)
  then have 1: "two_to (b - 1) \<le> x" using b1 by (simp add: two_to_def)
  from hi have "x < of_int (2 ^ nat b)" by (simp only: floor_less_iff)
  then have 2: "x < two_to b" using b1 by (simp add: two_to_def)
  from 1 2 show ?thesis by (simp add: e)
next
  case False
  with assms have x1: "x < 1" by simp
  define c where "c = \<lceil>1 / x\<rceil>"
  define b where "b = bitlen (c - 1)"
  from x1 assms have "1 < 1 / x" by simp
  then have "of_int 1 < 1 / x" by simp
  then have "1 < c" unfolding c_def by (simp only: less_ceiling_iff)
  then have c1: "0 < c - 1" by simp
  from bitlen_bounds [OF c1] have lo: "2 ^ nat (b - 1) \<le> c - 1" and hi: "c - 1 < 2 ^ nat b"
    by (simp_all add: b_def)
  have b1: "1 \<le> b"
  proof (rule ccontr)
    assume "\<not> 1 \<le> b"
    then have "nat b = 0" by simp
    with hi c1 show False by simp
  qed
  have e: "f32_exponent x = - b" using False by (simp add: f32_exponent_def b_def c_def)
  from hi have "c \<le> 2 ^ nat b" by simp
  then have "1 / x \<le> of_int (2 ^ nat b)" unfolding c_def by (simp only: ceiling_le_iff)
  then have "1 / x \<le> 2 ^ nat b" by simp
  then have "1 \<le> 2 ^ nat b * x" using assms by (simp add: field_simps)
  then have 1: "two_to (- b) \<le> x" using b1 by (simp add: two_to_def field_simps)
  from lo have "2 ^ nat (b - 1) < c" by simp
  then have "of_int (2 ^ nat (b - 1)) < 1 / x" unfolding c_def by (simp only: less_ceiling_iff)
  then have "2 ^ nat (b - 1) < 1 / x" by simp
  then have lt: "2 ^ nat (b - 1) * x < 1" using assms by (simp add: field_simps)
  have 2: "x < two_to (- b + 1)"
  proof (cases "b = 1")
    case True
    then show ?thesis using x1 by (simp add: two_to_def)
  next
    case False
    with b1 have "- b + 1 < 0" by simp
    moreover have "nat (b - 1) = nat (- (- b + 1))" by simp
    ultimately show ?thesis using lt by (simp add: two_to_def field_simps)
  qed
  from 1 2 show ?thesis by (simp add: e)
qed


lemma round_half_even_int: "round_half_even (of_int k) = k"
  by (simp add: round_half_even_def)

lemma round_half_even_err: "\<bar>of_int (round_half_even q) - q\<bar> \<le> 1 / 2"
  unfolding round_half_even_def Let_def by (auto simp: abs_le_iff)

lemma round_half_even_ge: "of_int k \<le> q \<Longrightarrow> k \<le> round_half_even q"
  unfolding round_half_even_def Let_def by (auto simp: le_floor_iff) linarith+

lemma round_half_even_le: "q \<le> of_int k \<Longrightarrow> round_half_even q \<le> k"
proof -
  assume a: "q \<le> of_int k"
  show ?thesis
  proof (cases "q = of_int k")
    case True
    then show ?thesis by (simp add: round_half_even_int)
  next
    case False
    with a have "q < of_int k" by simp
    then have "\<lfloor>q\<rfloor> < k" by (simp add: floor_less_iff)
    then show ?thesis unfolding round_half_even_def Let_def by auto
  qed
qed

lemma round_half_even_gt_even:
  assumes "even k"
  shows "(k < round_half_even q) = (of_int k + 1 / 2 < q)"
proof (cases "\<lfloor>q\<rfloor> = k")
  case True
  then show ?thesis using assms unfolding round_half_even_def Let_def by auto
next
  case False
  show ?thesis
  proof (cases "\<lfloor>q\<rfloor> < k")
    case True
    then have "\<lfloor>q\<rfloor> + 1 \<le> k" by simp
    then have "q < of_int k" using floor_less_iff True by blast
    moreover have "round_half_even q \<le> k"
      using \<open>q < of_int k\<close> by (intro round_half_even_le) simp
    ultimately show ?thesis by auto
  next
    case F2: False
    with False have "k + 1 \<le> \<lfloor>q\<rfloor>" by simp
    then have "of_int (k + 1) \<le> q" by (simp only: le_floor_iff)
    then have "k + 1 \<le> round_half_even q" by (rule round_half_even_ge)
    moreover from \<open>of_int (k + 1) \<le> q\<close> have "of_int k + 1 / 2 < q" by simp
    ultimately show ?thesis by auto
  qed
qed

lemma to_f32_scaled:
  assumes "0 < x"
  shows "2 ^ 23 \<le> x / two_to (f32_exponent x - 23)"
    and "x / two_to (f32_exponent x - 23) < 2 ^ 24"
proof -
  have u: "two_to (f32_exponent x - 23) * 2 ^ 23 = two_to (f32_exponent x)"
    using two_to_add [of "f32_exponent x - 23" 23] by (simp add: two_to_numeral)
  have u2: "two_to (f32_exponent x + 1) = 2 * two_to (f32_exponent x)"
    using two_to_add [of "f32_exponent x" 1] by (simp add: two_to_numeral)
  note b = f32_exponent_bounds [OF assms]
  have p: "0 < two_to (f32_exponent x - 23)" by (rule two_to_pos)
  show "2 ^ 23 \<le> x / two_to (f32_exponent x - 23)"
    using b p u by (simp add: pos_le_divide_eq mult.commute)
  show "x / two_to (f32_exponent x - 23) < 2 ^ 24"
    using b p u u2 by (simp add: pos_divide_less_eq)
qed


lemma to_f32_rel_err:
  assumes "0 < x"
  shows "\<bar>to_f32 x - x\<bar> \<le> x / 2 ^ 24"
proof -
  define u where "u = two_to (f32_exponent x - 23)"
  define q where "q = x / u"
  have up: "0 < u" by (simp add: u_def two_to_pos)
  have xq: "x = q * u" using up by (simp add: q_def)
  have f: "to_f32 x = of_int (round_half_even q) * u" using assms by (simp add: to_f32_def u_def q_def)
  have "q * u = x" using up by (simp add: q_def)
  then have "to_f32 x - x = (of_int (round_half_even q) - q) * u"
    unfolding f by (simp add: left_diff_distrib)
  then have "\<bar>to_f32 x - x\<bar> = \<bar>of_int (round_half_even q) - q\<bar> * u"
    using up by (simp add: abs_mult)
  also have "\<dots> \<le> 1 / 2 * u" using round_half_even_err [of q] up by (intro mult_right_mono) simp_all
  also have "\<dots> \<le> x / 2 ^ 24"
  proof -
    from to_f32_scaled(1) [OF assms] have "2 ^ 23 \<le> q" by (simp add: q_def u_def)
    then have "2 ^ 23 * u \<le> q * u" using up by (intro mult_right_mono) simp_all
    then show ?thesis by (simp add: xq)
  qed
  finally show ?thesis .
qed

lemma to_f32_exact_int:
  assumes "0 < k" and "k < 2 ^ 24"
  shows "to_f32 (of_int k) = of_int k"
proof -
  define e where "e = f32_exponent (of_int k)"
  have kp: "(0::real) < of_int k" using assms by simp
  from f32_exponent_bounds [OF kp] have lo: "two_to e \<le> of_int k" by (simp add: e_def)
  have "e \<le> 23"
  proof (rule ccontr)
    assume "\<not> e \<le> 23"
    then have "24 \<le> e" by simp
    from two_to_mono [OF this] lo have "two_to 24 \<le> of_int k" by simp
    moreover have "two_to 24 = 2 ^ 24" by (simp add: two_to_def)
    moreover have "real_of_int k < 2 ^ 24" using assms(2) 
      by (metis of_int_less_iff of_int_numeral of_int_power)
    ultimately show False by simp
  qed
  then have u: "two_to (e - 23) = 1 / 2 ^ nat (23 - e)"
    by (cases "e = 23") (simp_all add: two_to_def)
  have "of_int k / two_to (e - 23) = of_int (k * 2 ^ nat (23 - e))" by (simp add: u)
  then have "round_half_even (of_int k / two_to (e - 23)) = k * 2 ^ nat (23 - e)"
    by (simp only: round_half_even_int)
  then show ?thesis using kp by (simp add: to_f32_def e_def [symmetric] u)
qed

lemma to_f32_exact_nat: "n < 2 ^ 24 \<Longrightarrow> to_f32 (of_nat n) = of_nat n"
proof (cases "n = 0")
  case True
  then show ?thesis by (simp add: to_f32_def)
next
  case False
  assume "n < 2 ^ 24"
  then have "int n < 2 ^ 24" by (metis of_nat_less_iff of_nat_numeral of_nat_power)
  with False to_f32_exact_int [of "int n"] show ?thesis by simp
qed

lemma to_f32_gt_half:
  assumes "0 < p"
  shows "(1 / 2 < to_f32 p) = (1 / 2 + 1 / 2 ^ 25 < p)"
proof -
  define e where "e = f32_exponent p"
  define u where "u = two_to (e - 23)"
  define q where "q = p / u"
  define m where "m = round_half_even q"
  have up: "0 < u" by (simp add: u_def two_to_pos)
  have pq: "p = q * u" using up by (simp add: q_def)
  have f: "to_f32 p = of_int m * u" using assms by (simp add: to_f32_def u_def q_def m_def e_def)
  from to_f32_scaled [OF assms] have qlo: "2 ^ 23 \<le> q" and qhi: "q < 2 ^ 24"
    by (simp_all add: q_def u_def e_def)
  have "of_int (2 ^ 23) \<le> q" using qlo by simp
  then have mlo: "2 ^ 23 \<le> m" unfolding m_def by (rule round_half_even_ge)
  have "q \<le> of_int (2 ^ 24)" using qhi by simp
  then have mhi: "m \<le> 2 ^ 24" unfolding m_def by (rule round_half_even_le)
  have ue: "u * 2 ^ 23 = two_to e"
    using two_to_add [of "e - 23" 23] by (simp add: two_to_numeral u_def)
  consider "0 \<le> e" | "e = - 1" | "e \<le> - 2" by linarith
  then show ?thesis
  proof cases
    case 1
    from two_to_mono [OF 1] have "1 \<le> two_to e" by (simp add: two_to_numeral)
    moreover have "two_to e \<le> p" using f32_exponent_bounds [OF assms] by (simp add: e_def)
    moreover have "real_of_int (2 ^ 23) \<le> real_of_int m" using mlo by (simp only: of_int_le_iff)
    then have "of_int (2 ^ 23) * u \<le> of_int m * u"
      using up by (intro mult_right_mono) simp_all
    ultimately have "1 \<le> to_f32 p" "1 \<le> p" using ue by (simp_all add: f mult.commute)
    then show ?thesis by simp
  next
    case 3
    then have "e + 1 \<le> - 1" by simp
    from two_to_mono [OF this] have h: "two_to (e + 1) \<le> 1 / 2" by (simp add: two_to_def)
    have "two_to (e + 1) = 2 * two_to e" using two_to_add [of e 1] by (simp add: two_to_numeral)
    then have t: "u * 2 ^ 24 = two_to (e + 1)" using ue by simp
    have "real_of_int m \<le> real_of_int (2 ^ 24)" using mhi by (simp only: of_int_le_iff)
    then have "of_int m * u \<le> of_int (2 ^ 24) * u"
      using up by (intro mult_right_mono) simp_all
    then have "to_f32 p \<le> 1 / 2" using t h by (simp add: f mult.commute)
    moreover have "p < two_to (e + 1)" using f32_exponent_bounds [OF assms] by (simp add: e_def)
    then have "p < 1 / 2" using h by simp
    ultimately show ?thesis by simp
  next
    case 2
    then have u24: "u = 1 / 2 ^ 24" by (simp add: u_def two_to_def)
    have "(1 / 2 < to_f32 p) = (2 ^ 23 < m)"
    proof -
      have "(1 / 2 < to_f32 p) = (2 ^ 23 < real_of_int m)" by (simp add: f u24 field_simps)
      also have "\<dots> = (2 ^ 23 < m)" by (metis of_int_less_iff of_int_numeral of_int_power)
      finally show ?thesis .
    qed
    also have "\<dots> = (of_int (2 ^ 23) + 1 / 2 < q)"
      unfolding m_def by (rule round_half_even_gt_even) simp
    also have "\<dots> = (1 / 2 + 1 / 2 ^ 25 < p)" by (simp add: pq u24 field_simps)
    finally show ?thesis .
  qed
qed


lemma times_cond_denom_exact:
  assumes t0: "0 < total_conv" and t22: "total_conv \<le> 2 ^ 22" and n24: "num < 2 ^ 24"
  shows "(1 / 2 < times_cond_denom num total_conv) = (total_conv < 2 * num)"
proof -
  define t :: real where "t = of_nat total_conv"
  define a :: real where "a = of_nat num"
  define c where "c = to_f32 (1 / t)"
  have tp: "0 < t" using t0 by (simp add: t_def)
  have tb: "t \<le> 2 ^ 22" using t22 unfolding t_def
    by (metis of_nat_le_iff of_nat_numeral of_nat_power)
  have "total_conv < 2 ^ 24" using t22 by (rule le_less_trans) simp
  then have ft: "to_f32 (of_nat total_conv) = t" by (simp add: to_f32_exact_nat t_def)
  have fa: "to_f32 (of_nat num) = a" using n24 by (simp add: to_f32_exact_nat a_def)
  have cd: "cond_denom total_conv = c" using t0 by (simp add: cond_denom_def ft c_def)
  have test: "(1 / 2 < times_cond_denom num total_conv) = (1 / 2 < to_f32 (a * c))"
    by (simp add: times_cond_denom_def fa cd)
  have "0 < 1 / t" using tp by simp
  from to_f32_rel_err [OF this] have err: "\<bar>c - 1 / t\<bar> \<le> 1 / t / 2 ^ 24" by (simp add: c_def)
  then have clo: "1 / t - 1 / t / 2 ^ 24 \<le> c" and chi: "c \<le> 1 / t + 1 / t / 2 ^ 24"
    by (simp_all add: abs_le_iff)
  have "0 < 1 / t - 1 / t / 2 ^ 24" using tp by (simp add: field_simps)
  with clo have cp: "0 < c" by linarith
  have a0: "0 \<le> a" by (simp add: a_def)
  show ?thesis
  proof (cases "num = 0")
    case True
    then have "a * c = 0" by (simp add: a_def)
    moreover have "to_f32 0 = 0" by (simp add: to_f32_def)
    ultimately have "to_f32 (a * c) = 0" by (simp only:)
    then have "\<not> 1 / 2 < times_cond_denom num total_conv" unfolding test by simp
    with True show ?thesis by simp
  next
    case False
    then have ap: "0 < a" by (simp add: a_def)
    then have pp: "0 < a * c" using cp by simp
    have test': "(1 / 2 < times_cond_denom num total_conv) = (1 / 2 + 1 / 2 ^ 25 < a * c)"
      by (simp only: test to_f32_gt_half [OF pp])
    show ?thesis
    proof (cases "total_conv < 2 * num")
      case True
      then have "total_conv + 1 \<le> 2 * num" by simp
      then have "real (total_conv + 1) \<le> real (2 * num)" by (simp only: of_nat_le_iff)
      then have a2: "(t + 1) / 2 \<le> a" by (simp add: t_def a_def)
      have "(t + 1) / 2 * (1 / t - 1 / t / 2 ^ 24) \<le> a * (1 / t - 1 / t / 2 ^ 24)"
        using a2 \<open>0 < 1 / t - 1 / t / 2 ^ 24\<close> by (intro mult_right_mono) simp_all
      also have "\<dots> \<le> a * c" using clo a0 by (intro mult_left_mono) simp_all
      finally have low: "(t + 1) / 2 * (1 / t - 1 / t / 2 ^ 24) \<le> a * c" .
      have "1 / 2 + 1 / 2 ^ 25 < (t + 1) / 2 * (1 / t - 1 / t / 2 ^ 24)"
      proof -
        have "(t + 1) / 2 * (1 / t - 1 / t / 2 ^ 24) - (1 / 2 + 1 / 2 ^ 25)
            = (16777215 - 2 * t) / (33554432 * t)"
          using tp by (simp add: field_simps)
        moreover have "0 < (16777215 - 2 * t) / (33554432 * t)"
          using tp tb by (intro divide_pos_pos) simp_all
        ultimately show ?thesis by linarith
      qed
      with low have "1 / 2 + 1 / 2 ^ 25 < a * c" by linarith
      with True show ?thesis unfolding test' by simp
    next
      case False
      then have "2 * num \<le> total_conv" by simp
      then have "real (2 * num) \<le> real total_conv" by (simp only: of_nat_le_iff)
      then have a2: "a \<le> t / 2" by (simp add: t_def a_def)
      have "a * c \<le> a * (1 / t + 1 / t / 2 ^ 24)" using chi a0 by (intro mult_left_mono) simp_all
      also have "\<dots> \<le> t / 2 * (1 / t + 1 / t / 2 ^ 24)"
        using a2 tp by (intro mult_right_mono) simp_all
      also have "\<dots> = 1 / 2 + 1 / 2 ^ 25" using tp by (simp add: field_simps)
      finally have "\<not> 1 / 2 + 1 / 2 ^ 25 < a * c" by simp
      with False show ?thesis unfolding test' by simp
    qed
  qed
qed

subsection \<open>set\_layout\_optimizer\_attributes\<close>

lemma int8_quantize_node_iff:
  "int8_quantize_node ops p n
     = (is_quantize (kind (nodes p n))
        \<and> (data_type (layout_of ops p n) = i8 \<or> data_type (layout_of ops p n) = u8))"
  by (cases "kind (nodes p n)") (simp_all add: int8_quantize_node_def is_quantize_def)

lemma fsv16_compatible_listed:
  "fsv16_compatible k = (fsv16_listed_before_mvn k \<or> fsv16_listed_after_mvn k)"
  by (cases k)
    (simp_all add: fsv16_compatible_def fsv16_listed_before_mvn_def fsv16_listed_after_mvn_def)

lemma deconv_counted_iff:
  "deconv_counted ops p n l
     = (is_deconvolution (kind (nodes p n))
        \<and> \<not> is_format_optimized ops l p n b_fs_zyx_fsv16
        \<and> is_format_supported ops l p n b_fs_yx_fsv16)"
  by (cases "kind (nodes p n)") (simp_all add: deconv_counted_def is_deconvolution_def)

lemma deconv_fsv16_optimizable_iff:
  "deconv_fsv16_optimizable ops p n l
     = (is_deconvolution (kind (nodes p n)) \<and> is_format_supported ops l p n b_fs_yx_fsv16)"
  by (cases "kind (nodes p n)")
    (simp_all add: deconv_fsv16_optimizable_def is_deconvolution_def)

lemma set_attr_other:
  "a \<noteq> b \<Longrightarrow> optimization_attributes (set_optimization_attribute a v l) b = optimization_attributes l b"
  by (simp add: set_optimization_attribute_def)

lemma fsv16_view_frame:
  "fsv16_view (s\<lparr>total_dw_conv_layers := a\<rparr>) = fsv16_view s"
  "fsv16_view (s\<lparr>total_dw_splitted_conv_layers := a\<rparr>) = fsv16_view s"
  "fsv16_view (s\<lparr>total_grouped_conv_layers := a\<rparr>) = fsv16_view s"
  "fsv16_view (s\<lparr>total_1x1_fm_conv_layers := a\<rparr>) = fsv16_view s"
  "fsv16_view (s\<lparr>total_asym_quantized_conv_layers := a\<rparr>) = fsv16_view s"
  "fsv16_view (s\<lparr>opt_deconv_layers_b_fs_zyx_fsv16 := a\<rparr>) = fsv16_view s"
  "fsv16_view (s\<lparr>can_use_bs_fs_yx_bsv16_fsv16 := b\<rparr>) = fsv16_view s"
  by (simp_all add: fsv16_view_def)

lemma fsv16_view_lo:
  "optimization_attributes l b_fs_yx_fsv16_network
     = optimization_attributes (lo s) b_fs_yx_fsv16_network
   \<Longrightarrow> fsv16_view (s\<lparr>lo := l\<rparr>) = fsv16_view s"
  by (simp add: fsv16_view_def)

lemma conv_attributes_view: "fsv16_view (conv_attributes conv s) = fsv16_view s"
  by (simp add: conv_attributes_def Let_def fsv16_view_lo set_attr_other)

lemma conv_group_counters_view: "fsv16_view (conv_group_counters conv ifm s) = fsv16_view s"
  by (simp add: conv_group_counters_def fsv16_view_frame)

lemma conv_1x1_counter_view: "fsv16_view (conv_1x1_counter t s) = fsv16_view s"
  by (simp add: conv_1x1_counter_def fsv16_view_frame)

lemma conv_formats_view: "fsv16_view (conv_formats ops p node conv s) = fsv16_view s"
  by (simp add: conv_formats_def Let_def fsv16_view_frame fsv16_view_lo)

lemma scan_convolution_view:
  assumes "scan_convolution ops p node conv s = Inr s'"
  shows "fsv16_view s' = fsv16_view s"
  using assms
  by (auto simp: scan_convolution_def Let_def conv_attributes_view conv_group_counters_view
      conv_1x1_counter_view conv_formats_view split: sum.splits)

lemma scan_deconvolution_view:
  "fsv16_view (scan_deconvolution ops p node s)
     = (is_quantized_int8_model s, can_use_fsv16 s, total_crop_layers s,
        opt_deconv_layers_b_fs_yx_fsv16 s + (if deconv_counted ops p node (lo s) then 1 else 0),
        optimization_attributes (lo s) b_fs_yx_fsv16_network)"
  by (simp add: scan_deconvolution_def deconv_counted_iff fsv16_view_def)

lemma scan_bfyx_only_view: "fsv16_view (scan_bfyx_only k s) = fsv16_view s"
  by (simp add: scan_bfyx_only_def fsv16_view_lo set_attr_other)

lemma fsv16_listed_mvn: "fsv16_listed_after_mvn (mvn prim)"
  by (simp add: fsv16_listed_after_mvn_def)

lemma scan_fsv16_view:
  assumes "scan_fsv16 ops p node s = Inr s'"
  shows "fsv16_view s'
     = (is_quantized_int8_model s,
        can_use_fsv16 s \<and> (\<not> data_flow (nodes p node) \<or> fsv16_compatible (kind (nodes p node))),
        total_crop_layers s, opt_deconv_layers_b_fs_yx_fsv16 s,
        optimization_attributes (lo s) b_fs_yx_fsv16_network)"
proof (cases "data_flow (nodes p node) \<and> \<not> fsv16_listed_before_mvn (kind (nodes p node))")
  case False
  then show ?thesis
    using assms by (auto simp: scan_fsv16_def fsv16_view_def fsv16_compatible_listed)
next
  case True
  then obtain c where c: "mvn_clause ops p node = Inr c"
    using assms by (cases "mvn_clause ops p node") (simp_all add: scan_fsv16_def)
  have s': "s' = (if c \<and> \<not> fsv16_listed_after_mvn (kind (nodes p node))
                  then s\<lparr>can_use_fsv16 := False\<rparr> else s)"
    using assms True c by (simp add: scan_fsv16_def)
  have "c \<or> fsv16_listed_after_mvn (kind (nodes p node))"
  proof (cases "\<exists>prim. kind (nodes p node) = mvn prim")
    case True
    then show ?thesis by (auto simp: fsv16_listed_mvn)
  next
    case False
    then have "mvn_clause ops p node = Inr True"
      by (cases "kind (nodes p node)") (simp_all add: mvn_clause_def)
    then show ?thesis using c by simp
  qed
  then show ?thesis
    using True by (auto simp: s' fsv16_view_def fsv16_compatible_listed)
qed

lemma scan_tail_view:
  "fsv16_view (scan_bsv16_fsv16 n (scan_crop k (scan_quantize ops p node s)))
     = (is_quantized_int8_model s
          \<or> (is_quantize (kind (nodes p node))
             \<and> (data_type (layout_of ops p node) = i8 \<or> data_type (layout_of ops p node) = u8)),
        can_use_fsv16 s,
        total_crop_layers s + (if k = crop then 1 else 0),
        opt_deconv_layers_b_fs_yx_fsv16 s,
        optimization_attributes (lo s) b_fs_yx_fsv16_network)"
  by (auto simp: scan_bsv16_fsv16_def scan_crop_def scan_quantize_def fsv16_view_def)

lemma scan_node_view:
  assumes "scan_node ops p node s = Inr s'"
  shows "fsv16_view s'
     = (is_quantized_int8_model s
          \<or> (is_quantize (kind (nodes p node))
             \<and> (data_type (layout_of ops p node) = i8 \<or> data_type (layout_of ops p node) = u8)),
        can_use_fsv16 s \<and> (\<not> data_flow (nodes p node) \<or> fsv16_compatible (kind (nodes p node))),
        total_crop_layers s + (if kind (nodes p node) = crop then 1 else 0),
        opt_deconv_layers_b_fs_yx_fsv16 s + (if deconv_counted ops p node (lo s) then 1 else 0),
        optimization_attributes (lo s) b_fs_yx_fsv16_network)"
proof -
  define s1 where "s1 = (case kind (nodes p node) of
                           convolution conv \<Rightarrow> scan_convolution ops p node conv s
                         | _ \<Rightarrow> Inr s)"
  obtain t1 where t1: "s1 = Inr t1"
    using assms by (cases s1) (simp_all add: scan_node_def s1_def)
  have v1: "fsv16_view t1 = fsv16_view s"
    using t1 by (cases "kind (nodes p node)") (simp_all add: s1_def scan_convolution_view)
  have d1: "deconv_counted ops p node (lo t1) = deconv_counted ops p node (lo s)"
    using t1 by (cases "kind (nodes p node)") (auto simp: s1_def deconv_counted_iff is_deconvolution_def)
  define u where "u = scan_bfyx_only (kind (nodes p node)) (scan_deconvolution ops p node t1)"
  have vu: "fsv16_view u
     = (is_quantized_int8_model s, can_use_fsv16 s, total_crop_layers s,
        opt_deconv_layers_b_fs_yx_fsv16 s + (if deconv_counted ops p node (lo s) then 1 else 0),
        optimization_attributes (lo s) b_fs_yx_fsv16_network)"
    unfolding u_def scan_bfyx_only_view scan_deconvolution_view d1
    using v1 by (simp add: fsv16_view_def)
  obtain t2 where t2: "scan_fsv16 ops p node u = Inr t2"
    using assms t1 by (cases "scan_fsv16 ops p node u") (simp_all add: scan_node_def s1_def u_def)
  have s': "s' = scan_bsv16_fsv16 (nodes p node)
                   (scan_crop (kind (nodes p node)) (scan_quantize ops p node t2))"
    using assms t1 t2 by (simp add: scan_node_def s1_def u_def)
  have v2: "fsv16_view t2
     = (is_quantized_int8_model u,
        can_use_fsv16 u \<and> (\<not> data_flow (nodes p node) \<or> fsv16_compatible (kind (nodes p node))),
        total_crop_layers u, opt_deconv_layers_b_fs_yx_fsv16 u,
        optimization_attributes (lo u) b_fs_yx_fsv16_network)"
    by (rule scan_fsv16_view [OF t2])
  show ?thesis
    unfolding s' scan_tail_view using v2 vu by (simp add: fsv16_view_def)
qed

lemma scan_nodes_view:
  assumes "scan_nodes ops p ns s = Inr s'"
  shows "fsv16_view s'
     = (is_quantized_int8_model s
          \<or> list_ex (\<lambda>n. is_quantize (kind (nodes p n))
                          \<and> (data_type (layout_of ops p n) = i8 \<or> data_type (layout_of ops p n) = u8)) ns,
        can_use_fsv16 s
          \<and> list_all (\<lambda>n. \<not> data_flow (nodes p n) \<or> fsv16_compatible (kind (nodes p n))) ns,
        total_crop_layers s + length (filter (\<lambda>n. kind (nodes p n) = crop) ns),
        opt_deconv_layers_b_fs_yx_fsv16 s + visits_counted (deconv_counted ops p) ops p ns s,
        optimization_attributes (lo s) b_fs_yx_fsv16_network)"
  using assms
proof (induction ns arbitrary: s)
  case Nil
  then show ?case by (auto simp: fsv16_view_def)
next
  case (Cons n ns)
  then obtain t where t: "scan_node ops p n s = Inr t" and r: "scan_nodes ops p ns t = Inr s'"
    by (cases "scan_node ops p n s") simp_all
  note vt = scan_node_view [OF t]
  show ?case
    unfolding Cons.IH [OF r] using vt t by (auto simp: fsv16_view_def)
qed

lemma decide_attributes_fsv16:
  "optimization_attributes (decide_attributes ops s) b_fs_yx_fsv16_network
     = (if should_use_b_fs_yx_fsv16_conv ops s then 1
        else optimization_attributes (lo s) b_fs_yx_fsv16_network)"
  by (simp add: decide_attributes_def Let_def set_attr_other)
    (simp add: set_optimization_attribute_def)

lemma decide_attributes_state: "lo_state (decide_attributes ops s) = lo_state (lo s)"
  by (simp add: decide_attributes_def Let_def set_optimization_attribute_def)


lemma scan_view_claim:
  assumes "scan_nodes ops p (processing_order p) (scan_start ops l) = Inr s"
  shows "is_quantized_int8_model s = int8_quantized_model ops p"
    and "can_use_fsv16 s = fsv16_compatible_graph p"
    and "total_crop_layers s = crop_count p"
    and "opt_deconv_layers_b_fs_yx_fsv16 s = fsv16_deconv_count ops p l"
    and "optimization_attributes (lo s) b_fs_yx_fsv16_network
           = optimization_attributes l b_fs_yx_fsv16_network"
proof -
  have q: "int8_quantize_node ops p
             = (\<lambda>n. is_quantize (kind (nodes p n))
                     \<and> (data_type (layout_of ops p n) = i8 \<or> data_type (layout_of ops p n) = u8))"
    by (rule ext) (rule int8_quantize_node_iff)
  note v = scan_nodes_view [OF assms]
  from v show "is_quantized_int8_model s = int8_quantized_model ops p"
    by (simp add: fsv16_view_def scan_start_def int8_quantized_model_def q)
  from v show "can_use_fsv16 s = fsv16_compatible_graph p"
    by (simp add: fsv16_view_def scan_start_def fsv16_compatible_graph_def)
  from v show "total_crop_layers s = crop_count p"
    by (simp add: fsv16_view_def scan_start_def crop_count_def)
  from v show "opt_deconv_layers_b_fs_yx_fsv16 s = fsv16_deconv_count ops p l"
    by (simp add: fsv16_view_def scan_start_def fsv16_deconv_count_def)
  from v show "optimization_attributes (lo s) b_fs_yx_fsv16_network
           = optimization_attributes l b_fs_yx_fsv16_network"
    by (simp add: fsv16_view_def scan_start_def)
qed

lemma should_use_threshold:
  assumes "scan_nodes ops p (processing_order p) (scan_start ops l) = Inr s"
  shows "should_use_b_fs_yx_fsv16_conv ops s = fsv16_threshold_f32 ops p l (decide_attributes ops s)"
  by (simp add: should_use_b_fs_yx_fsv16_conv_def fsv16_threshold_f32_def Let_def
      scan_view_claim [OF assms] total_convs_def fsv16_convs_def decide_attributes_state)

lemma times_cond_denom_large:
  assumes t0: "0 < total_conv" and t22: "total_conv \<le> 2 ^ 22" and n24: "2 ^ 24 \<le> num"
  shows "1 / 2 < times_cond_denom num total_conv"
proof -
  define t :: real where "t = of_nat total_conv"
  define a :: real where "a = of_nat num"
  define r :: real where "r = 1 / t"
  define c where "c = to_f32 r"
  have tp: "0 < t" using t0 by (simp add: t_def)
  have "real total_conv \<le> real (2 ^ 22)" using t22 by (simp only: of_nat_le_iff)
  then have tb: "t \<le> 4194304" by (simp add: t_def)
  have "real (2 ^ 24) \<le> real num" using n24 by (simp only: of_nat_le_iff)
  then have ab: "16777216 \<le> a" by (simp add: a_def)
  then have ap: "0 < a" by simp
  have "total_conv < 2 ^ 24" using t22 by (rule le_less_trans) simp
  then have ft: "to_f32 (of_nat total_conv) = t" by (simp add: to_f32_exact_nat t_def)
  have cd: "cond_denom total_conv = c" using t0 by (simp add: cond_denom_def ft c_def r_def)
  have rp: "0 < r" using tp by (simp add: r_def)
  have "1 / 4194304 \<le> 1 / t" using tp tb by (intro divide_left_mono) simp_all
  then have rb: "1 / 4194304 \<le> r" by (simp only: r_def)
  from to_f32_rel_err [OF rp] have "\<bar>c - r\<bar> \<le> r / 2 ^ 24" by (simp only: c_def)
  then have "\<bar>c - r\<bar> \<le> r / 16777216" by simp
  with rb have c23: "1 / 8388608 \<le> c" by linarith
  from to_f32_rel_err [OF ap] have "\<bar>to_f32 a - a\<bar> \<le> a / 2 ^ 24" .
  then have "\<bar>to_f32 a - a\<bar> \<le> a / 16777216" by simp
  with ab have a23: "8388608 \<le> to_f32 a" by linarith
  have "8388608 * (1 / 8388608) \<le> to_f32 a * c"
    using a23 c23 by (intro mult_mono) simp_all
  then have one: "1 \<le> to_f32 a * c" by simp
  then have pp: "0 < to_f32 a * c" by linarith
  have "(1::real) / 2 + 1 / 2 ^ 25 < 1" by simp
  with one have "1 / 2 + 1 / 2 ^ 25 < to_f32 a * c" by linarith
  then have "1 / 2 < to_f32 (to_f32 a * c)" by (simp only: to_f32_gt_half [OF pp])
  then show ?thesis by (simp only: times_cond_denom_def cd a_def)
qed

lemma fraction_exact:
  assumes "11 < total_conv" and "total_conv \<le> 2 ^ 22"
  shows "(1 / 2 < times_cond_denom num total_conv) = (1 / 2 < real num / real total_conv)"
proof -
  have t0: "0 < total_conv" using assms(1) by simp
  have "(1 / 2 < real num / real total_conv) = (real total_conv < 2 * real num)"
    using t0 by (simp add: field_simps)
  also have "\<dots> = (total_conv < 2 * num)"
    by (metis of_nat_less_iff of_nat_mult of_nat_numeral)
  finally have frac: "(1 / 2 < real num / real total_conv) = (total_conv < 2 * num)" .
  show ?thesis
  proof (cases "num < 2 ^ 24")
    case True
    from times_cond_denom_exact [OF t0 assms(2) True] frac show ?thesis by simp
  next
    case False
    then have n24: "2 ^ 24 \<le> num" by simp
    have "total_conv < 2 * num" using assms(2) n24 by simp
    with times_cond_denom_large [OF t0 assms(2) n24] frac show ?thesis by simp
  qed
qed

lemma fsv16_attribute_f32:
  assumes "set_layout_optimizer_attributes ops p l = Inr l'"
  shows "optimization_attributes l' b_fs_yx_fsv16_network
           = (if fsv16_threshold_f32 ops p l l' then 1
              else optimization_attributes l b_fs_yx_fsv16_network)"
proof -
  obtain s where s: "scan_nodes ops p (processing_order p) (scan_start ops l) = Inr s"
    and l': "l' = decide_attributes ops s"
    using assms
    by (cases "scan_nodes ops p (processing_order p) (scan_start ops l)")
      (simp_all add: set_layout_optimizer_attributes_def)
  show ?thesis
    unfolding l' decide_attributes_fsv16 should_use_threshold [OF s]
    by (simp add: scan_view_claim [OF s])
qed

lemma fsv16_threshold_exact:
  assumes "total_convs ops l' \<le> 2 ^ 22"
  shows "fsv16_threshold_f32 ops p l l' = fsv16_threshold_counted ops p l l'"
proof (cases "11 < total_convs ops l'")
  case True
  show ?thesis
    unfolding fsv16_threshold_f32_def fsv16_threshold_counted_def
    by (simp only: fraction_exact [OF True assms])
next
  case False
  then show ?thesis
    by (simp add: fsv16_threshold_f32_def fsv16_threshold_counted_def)
qed

text \<open>
  C3. When set\_layout\_optimizer\_attributes returns and the optimizer has counted at
  most \<open>2^22\<close> convolutions, it has enabled the b\_fs\_yx\_fsv16 network attribute (set
  it to 1; otherwise the attribute is as it was) if and only if the model is
  int8-quantized, or every data-flow node's kind is fsv16-compatible and the total
  convolution count exceeds 11 and (the fraction of b\_fs\_yx\_fsv16-optimized
  convolutions among all convolutions exceeds 0.5 or there is at least one deconvolution
  for which the optimizer does not call b\_fs\_zyx\_fsv16 optimized and calls
  b\_fs\_yx\_fsv16 supported) and twice the count of b\_fs\_yx\_fsv16-optimized
  convolutions exceeds the count of crops.
\<close>

theorem set_layout_optimizer_attributes_fsv16:
  assumes "set_layout_optimizer_attributes ops p l = Inr l'"
      and "total_convs ops l' \<le> 2 ^ 22"
  shows "optimization_attributes l' b_fs_yx_fsv16_network
           = (if fsv16_threshold_counted ops p l l' then 1
              else optimization_attributes l b_fs_yx_fsv16_network)"
  using fsv16_attribute_f32 [OF assms(1)] fsv16_threshold_exact [OF assms(2)] by simp

lemma counting_ops_sel:
  "set_implementation_forcing (counting_ops k zo ys) c = c"
  "update_formats_map (counting_ops k zo ys) p node c
     = (fst c + 1, if node \<le> k then snd c + 1 else snd c)"
  "is_format_optimized (counting_ops k zo ys) l p node f = zo"
  "is_format_supported (counting_ops k zo ys) l p node f = ys"
  "get_total_conv_count (counting_ops k zo ys) c = fst c"
  "get_optimized_conv_count (counting_ops k zo ys) c (b_fs_yx_fsv16, False) = snd c"
  "layout_of (counting_ops k zo ys) p node = output_layout (nodes p node)"
  "onednn_in_order (counting_ops k zo ys) = False"
  by (simp_all add: counting_ops_def)

lemma fresh_optimizer_cleared: "optimization_attributes fresh_optimizer a = 0"
  by (simp add: fresh_optimizer_def)

lemma conv_star_kind:
  "kind (nodes (conv_star m d) n)
     = (if n = 0 then input_layout else if n \<le> m then plain_conv else plain_deconv)"
  by (simp add: conv_star_def empty_program_def detached_node_def)

lemma conv_star_data_flow: "data_flow (nodes (conv_star m d) n)"
  by (simp add: conv_star_def empty_program_def detached_node_def)

lemma conv_star_dependency:
  "0 < n \<Longrightarrow> get_dependency (nodes (conv_star m d) n) 0 = Inr 0"
  by (simp add: get_dependency_def conv_star_def empty_program_def detached_node_def)

lemma lo_state_conv_steps:
  "lo_state (lo (conv_attributes conv s)) = lo_state (lo s)"
  "lo_state (lo (conv_group_counters conv ifm s)) = lo_state (lo s)"
  "lo_state (lo (conv_1x1_counter t s)) = lo_state (lo s)"
  "lo_state (lo (conv_formats ops p node conv s)) = update_formats_map ops p node (lo_state (lo s))"
  by (simp_all add: conv_attributes_def conv_group_counters_def conv_1x1_counter_def
      conv_formats_def Let_def set_optimization_attribute_def)

lemma scan_node_star:
  "\<exists>s'. scan_node (counting_ops k zo ys) (conv_star m d) n s = Inr s'
        \<and> lo_state (lo s')
            = (if 0 < n \<and> n \<le> m
               then (fst (lo_state (lo s)) + 1,
                     if n \<le> k then snd (lo_state (lo s)) + 1 else snd (lo_state (lo s)))
               else lo_state (lo s))"
proof -
  consider "n = 0" | "0 < n" "n \<le> m" | "m < n" by linarith
  then show ?thesis
  proof cases
    case 1
    then show ?thesis
      by (simp add: scan_node_def conv_star_kind conv_star_data_flow scan_fsv16_def
          fsv16_listed_before_mvn_def scan_bfyx_only_def scan_deconvolution_def
          is_deconvolution_def scan_bsv16_fsv16_def scan_crop_def scan_quantize_def
          is_quantize_def)
  next
    case 2
    then have kd: "kind (nodes (conv_star m d) n) = plain_conv"
      by (simp add: conv_star_kind)
    from 2 show ?thesis
      by (simp add: scan_node_def kd plain_conv_def conv_star_dependency scan_convolution_def
          Let_def conv_star_data_flow scan_fsv16_def fsv16_listed_before_mvn_def
          scan_bfyx_only_def scan_deconvolution_def is_deconvolution_def scan_bsv16_fsv16_def
          scan_crop_def scan_quantize_def is_quantize_def lo_state_conv_steps counting_ops_sel)
  next
    case 3
    then have kd: "kind (nodes (conv_star m d) n) = plain_deconv"
      by (simp add: conv_star_kind)
    from 3 show ?thesis
      by (simp add: scan_node_def kd plain_deconv_def conv_star_data_flow scan_fsv16_def
          fsv16_listed_before_mvn_def scan_bfyx_only_def scan_deconvolution_def
          is_deconvolution_def scan_bsv16_fsv16_def scan_crop_def scan_quantize_def
          is_quantize_def set_optimization_attribute_def)
  qed
qed

lemma scan_nodes_star:
  "\<exists>s'. scan_nodes (counting_ops k zo ys) (conv_star m d) ns s = Inr s'
        \<and> lo_state (lo s')
            = (fst (lo_state (lo s)) + length (filter (\<lambda>n. 0 < n \<and> n \<le> m) ns),
               snd (lo_state (lo s)) + length (filter (\<lambda>n. 0 < n \<and> n \<le> m \<and> n \<le> k) ns))"
proof (induction ns arbitrary: s)
  case Nil
  then show ?case by simp
next
  case (Cons n ns)
  obtain t where t: "scan_node (counting_ops k zo ys) (conv_star m d) n s = Inr t"
    and lt: "lo_state (lo t)
            = (if 0 < n \<and> n \<le> m
               then (fst (lo_state (lo s)) + 1,
                     if n \<le> k then snd (lo_state (lo s)) + 1 else snd (lo_state (lo s)))
               else lo_state (lo s))"
    using scan_node_star by blast
  obtain s' where s': "scan_nodes (counting_ops k zo ys) (conv_star m d) ns t = Inr s'"
    and ls: "lo_state (lo s')
            = (fst (lo_state (lo t)) + length (filter (\<lambda>n. 0 < n \<and> n \<le> m) ns),
               snd (lo_state (lo t)) + length (filter (\<lambda>n. 0 < n \<and> n \<le> m \<and> n \<le> k) ns))"
    using Cons.IH by blast
  show ?case
    by (simp add: t s' ls lt)
qed

lemma count_between: "length (filter (\<lambda>n. 0 < n \<and> n \<le> k) [0..<Suc j]) = min k j"
  by (induction j) auto

lemma conv_star_returns:
  "\<exists>l'. set_layout_optimizer_attributes (counting_ops k zo ys) (conv_star m d) fresh_optimizer
          = Inr l'
        \<and> lo_state l' = (m, min k m)"
proof -
  define s0 where "s0 = scan_start (counting_ops k zo ys) fresh_optimizer"
  have l0: "lo_state (lo s0) = (0, 0)"
    by (simp add: s0_def scan_start_def fresh_optimizer_def counting_ops_sel)
  have po: "processing_order (conv_star m d) = [0..<Suc (m + d)]"
    by (simp add: conv_star_def empty_program_def)
  obtain s' where s': "scan_nodes (counting_ops k zo ys) (conv_star m d) [0..<Suc (m + d)] s0
                         = Inr s'"
    and ls: "lo_state (lo s')
            = (fst (lo_state (lo s0))
                 + length (filter (\<lambda>n. 0 < n \<and> n \<le> m) [0..<Suc (m + d)]),
               snd (lo_state (lo s0))
                 + length (filter (\<lambda>n. 0 < n \<and> n \<le> m \<and> n \<le> k) [0..<Suc (m + d)]))"
    using scan_nodes_star by blast
  have both: "(\<lambda>n. 0 < n \<and> n \<le> m \<and> n \<le> k) = (\<lambda>n. 0 < n \<and> n \<le> min m k)"
    by auto
  have st: "lo_state (lo s') = (m, min k m)"
    unfolding ls l0 both count_between by (simp add: min.commute)
  have "set_layout_optimizer_attributes (counting_ops k zo ys) (conv_star m d) fresh_optimizer
          = Inr (decide_attributes (counting_ops k zo ys) s')"
    by (simp only: set_layout_optimizer_attributes_def po s0_def [symmetric] s' sum.case)
  moreover have "lo_state (decide_attributes (counting_ops k zo ys) s') = (m, min k m)"
    by (simp only: decide_attributes_state st)
  ultimately show ?thesis by blast
qed

lemma star_attributes_returns:
  "set_layout_optimizer_attributes (counting_ops k zo ys) (conv_star m d) fresh_optimizer
     = Inr (star_attributes (counting_ops k zo ys) (conv_star m d))"
  "total_convs (counting_ops k zo ys) (star_attributes (counting_ops k zo ys) (conv_star m d)) = m"
  "fsv16_convs (counting_ops k zo ys) (star_attributes (counting_ops k zo ys) (conv_star m d))
     = min k m"
proof -
  obtain l' where r: "set_layout_optimizer_attributes (counting_ops k zo ys) (conv_star m d)
                        fresh_optimizer = Inr l'"
    and st: "lo_state l' = (m, min k m)"
    using conv_star_returns by blast
  have sa: "star_attributes (counting_ops k zo ys) (conv_star m d) = l'"
    by (simp add: star_attributes_def r)
  show "set_layout_optimizer_attributes (counting_ops k zo ys) (conv_star m d) fresh_optimizer
     = Inr (star_attributes (counting_ops k zo ys) (conv_star m d))"
    by (simp add: sa r)
  show "total_convs (counting_ops k zo ys)
          (star_attributes (counting_ops k zo ys) (conv_star m d)) = m"
    by (simp add: sa total_convs_def counting_ops_sel st)
  show "fsv16_convs (counting_ops k zo ys)
          (star_attributes (counting_ops k zo ys) (conv_star m d)) = min k m"
    by (simp add: sa fsv16_convs_def counting_ops_sel st)
qed

lemma visits_counted_none:
  "\<forall>n\<in>set ns. \<forall>l. \<not> asked n l \<Longrightarrow> visits_counted asked ops p ns s = 0"
  by (induction ns arbitrary: s) (auto split: sum.splits)

lemma visits_counted_some:
  assumes "\<exists>n\<in>set ns. \<forall>l. asked n l"
      and "\<forall>n\<in>set ns. \<forall>s. \<exists>s'. scan_node ops p n s = Inr s'"
  shows "1 \<le> visits_counted asked ops p ns s"
  using assms
proof (induction ns arbitrary: s)
  case Nil
  then show ?case by simp
next
  case (Cons n ns)
  show ?case
  proof (cases "asked n (lo s)")
    case True
    then show ?thesis by simp
  next
    case False
    with Cons.prems(1) have ex: "\<exists>n\<in>set ns. \<forall>l. asked n l" by auto
    from Cons.prems(2) have "\<exists>s'. scan_node ops p n s = Inr s'" by simp
    then obtain s' where s': "scan_node ops p n s = Inr s'" by blast
    from Cons.prems(2) have "\<forall>n\<in>set ns. \<forall>s. \<exists>s'. scan_node ops p n s = Inr s'" by simp
    from Cons.IH [OF ex this, of s'] show ?thesis by (simp add: s')
  qed
qed

lemma conv_star_claim_side:
  "\<not> int8_quantized_model (counting_ops k zo ys) (conv_star m d)"
  "fsv16_compatible_graph (conv_star m d)"
  "crop_count (conv_star m d) = 0"
proof -
  show "\<not> int8_quantized_model (counting_ops k zo ys) (conv_star m d)"
    by (simp add: int8_quantized_model_def int8_quantize_node_def list_ex_iff conv_star_kind
        plain_conv_def plain_deconv_def)
  show "fsv16_compatible_graph (conv_star m d)"
    by (simp add: fsv16_compatible_graph_def list_all_iff conv_star_kind fsv16_compatible_def
        plain_conv_def plain_deconv_def)
  show "crop_count (conv_star m d) = 0"
    by (simp add: crop_count_def conv_star_kind plain_conv_def plain_deconv_def)
qed

lemma conv_star_deconvs:
  "zo \<or> \<not> ys \<or> d = 0 \<Longrightarrow> fsv16_deconv_count (counting_ops k zo ys) (conv_star m d) l = 0"
  "\<not> zo \<Longrightarrow> ys \<Longrightarrow> 0 < d \<Longrightarrow> 1 \<le> fsv16_deconv_count (counting_ops k zo ys) (conv_star m d) l"
  "ys \<Longrightarrow> 0 < d \<Longrightarrow> 1 \<le> fsv16_optimizable_deconvs (counting_ops k zo ys) (conv_star m d) l"
proof -
  have po: "processing_order (conv_star m d) = [0..<Suc (m + d)]"
    by (simp add: conv_star_def empty_program_def)
  have total: "\<forall>n\<in>set ns. \<forall>s. \<exists>s'. scan_node (counting_ops k zo ys) (conv_star m d) n s = Inr s'"
    for ns
    using scan_node_star by blast
  have dk: "is_deconvolution (kind (nodes (conv_star m d) n)) = (m < n)" for n
    by (auto simp: conv_star_kind is_deconvolution_def plain_conv_def plain_deconv_def)
  show "fsv16_deconv_count (counting_ops k zo ys) (conv_star m d) l = 0" if "zo \<or> \<not> ys \<or> d = 0"
    unfolding fsv16_deconv_count_def po
    by (rule visits_counted_none) (use that in \<open>auto simp: deconv_counted_iff dk counting_ops_sel\<close>)
  show "1 \<le> fsv16_deconv_count (counting_ops k zo ys) (conv_star m d) l"
    if "\<not> zo" and ys and "0 < d"
    unfolding fsv16_deconv_count_def po
  proof (rule visits_counted_some [OF _ total])
    from that show "\<exists>n\<in>set [0..<Suc (m + d)].
                      \<forall>l. deconv_counted (counting_ops k zo ys) (conv_star m d) n l"
      by (intro bexI [of _ "Suc m"]) (auto simp: deconv_counted_iff dk counting_ops_sel)
  qed
  show "1 \<le> fsv16_optimizable_deconvs (counting_ops k zo ys) (conv_star m d) l"
    if ys and "0 < d"
    unfolding fsv16_optimizable_deconvs_def po
  proof (rule visits_counted_some [OF _ total])
    from that show "\<exists>n\<in>set [0..<Suc (m + d)].
                      \<forall>l. deconv_fsv16_optimizable (counting_ops k zo ys) (conv_star m d) n l"
      by (intro bexI [of _ "Suc m"]) (auto simp: deconv_fsv16_optimizable_iff dk counting_ops_sel)
  qed
qed


theorem set_layout_optimizer_attributes_fsv16_witness:
  "set_layout_optimizer_attributes (counting_ops 7 False False) (conv_star 12 0) fresh_optimizer
     = Inr (star_attributes (counting_ops 7 False False) (conv_star 12 0))
   \<and> total_convs (counting_ops 7 False False)
        (star_attributes (counting_ops 7 False False) (conv_star 12 0)) = 12
   \<and> fsv16_convs (counting_ops 7 False False)
        (star_attributes (counting_ops 7 False False) (conv_star 12 0)) = 7
   \<and> optimization_attributes (star_attributes (counting_ops 7 False False) (conv_star 12 0))
        b_fs_yx_fsv16_network = 1
   \<and> set_layout_optimizer_attributes (counting_ops 5 False True) (conv_star 12 1) fresh_optimizer
     = Inr (star_attributes (counting_ops 5 False True) (conv_star 12 1))
   \<and> fsv16_convs (counting_ops 5 False True)
        (star_attributes (counting_ops 5 False True) (conv_star 12 1)) = 5
   \<and> optimization_attributes (star_attributes (counting_ops 5 False True) (conv_star 12 1))
        b_fs_yx_fsv16_network = 1
   \<and> set_layout_optimizer_attributes (counting_ops 5 False False) (conv_star 12 1) fresh_optimizer
     = Inr (star_attributes (counting_ops 5 False False) (conv_star 12 1))
   \<and> optimization_attributes (star_attributes (counting_ops 5 False False) (conv_star 12 1))
        b_fs_yx_fsv16_network = 0"
proof -
  have bound: "total_convs (counting_ops k zo ys)
                 (star_attributes (counting_ops k zo ys) (conv_star 12 d)) \<le> 2 ^ 22" for k zo ys d
    by (simp add: star_attributes_returns)
  have a: "fsv16_threshold_counted (counting_ops 7 False False) (conv_star 12 0) fresh_optimizer
             (star_attributes (counting_ops 7 False False) (conv_star 12 0))"
    by (simp add: fsv16_threshold_counted_def conv_star_claim_side star_attributes_returns)
  have "1 \<le> fsv16_deconv_count (counting_ops 5 False True) (conv_star 12 1) fresh_optimizer"
    by (rule conv_star_deconvs(2)) simp_all
  then have b: "fsv16_threshold_counted (counting_ops 5 False True) (conv_star 12 1)
                  fresh_optimizer (star_attributes (counting_ops 5 False True) (conv_star 12 1))"
    by (simp add: fsv16_threshold_counted_def conv_star_claim_side star_attributes_returns)
  have c: "\<not> fsv16_threshold_counted (counting_ops 5 False False) (conv_star 12 1) fresh_optimizer
             (star_attributes (counting_ops 5 False False) (conv_star 12 1))"
    by (simp add: fsv16_threshold_counted_def conv_star_claim_side star_attributes_returns
        conv_star_deconvs)
  from set_layout_optimizer_attributes_fsv16 [OF star_attributes_returns(1) bound,
      of 7 False False 0]
    set_layout_optimizer_attributes_fsv16 [OF star_attributes_returns(1) bound,
      of 5 False True 1]
    set_layout_optimizer_attributes_fsv16 [OF star_attributes_returns(1) bound,
      of 5 False False 1]
    a b c
  show ?thesis
    by (simp add: star_attributes_returns fresh_optimizer_cleared)
qed

text \<open>
  The claim as stated fails at a deconvolution for which the optimizer calls
  b\_fs\_zyx\_fsv16 optimized: the loop counts it for that format and never asks about
  b\_fs\_yx\_fsv16. An input read by twelve convolutions, five of them optimized for
  b\_fs\_yx\_fsv16, and by one deconvolution; the optimizer calls every format optimized
  and supported for it. The deconvolution is fsv16-optimizable, so the claim's
  condition holds, and the attribute stays cleared.
\<close>

theorem set_layout_optimizer_attributes_fsv16_counterexample:
  "set_layout_optimizer_attributes (counting_ops 5 True True) (conv_star 12 1) fresh_optimizer
     = Inr (star_attributes (counting_ops 5 True True) (conv_star 12 1))
   \<and> total_convs (counting_ops 5 True True)
        (star_attributes (counting_ops 5 True True) (conv_star 12 1)) = 12
   \<and> fsv16_convs (counting_ops 5 True True)
        (star_attributes (counting_ops 5 True True) (conv_star 12 1)) = 5
   \<and> 1 \<le> fsv16_optimizable_deconvs (counting_ops 5 True True) (conv_star 12 1) fresh_optimizer
   \<and> fsv16_threshold_spec (counting_ops 5 True True) (conv_star 12 1) fresh_optimizer
        (star_attributes (counting_ops 5 True True) (conv_star 12 1))
   \<and> optimization_attributes (star_attributes (counting_ops 5 True True) (conv_star 12 1))
        b_fs_yx_fsv16_network = 0"
proof -
  have od: "1 \<le> fsv16_optimizable_deconvs (counting_ops 5 True True) (conv_star 12 1)
                   fresh_optimizer"
    by (rule conv_star_deconvs(3)) simp_all
  have spec: "fsv16_threshold_spec (counting_ops 5 True True) (conv_star 12 1) fresh_optimizer
                (star_attributes (counting_ops 5 True True) (conv_star 12 1))"
    using od by (simp add: fsv16_threshold_spec_def conv_star_claim_side star_attributes_returns)
  have bound: "total_convs (counting_ops 5 True True)
                 (star_attributes (counting_ops 5 True True) (conv_star 12 1)) \<le> 2 ^ 22"
    by (simp add: star_attributes_returns)
  have counted: "\<not> fsv16_threshold_counted (counting_ops 5 True True) (conv_star 12 1)
                     fresh_optimizer (star_attributes (counting_ops 5 True True) (conv_star 12 1))"
    by (simp add: fsv16_threshold_counted_def conv_star_claim_side star_attributes_returns
        conv_star_deconvs)
  have "optimization_attributes (star_attributes (counting_ops 5 True True) (conv_star 12 1))
          b_fs_yx_fsv16_network = 0"
    using fsv16_attribute_f32 [OF star_attributes_returns(1), of 5 True True 12 1]
      fsv16_threshold_exact [OF bound, of "conv_star 12 1" fresh_optimizer] counted
    by (simp add: fresh_optimizer_cleared)
  with spec od show ?thesis
    by (simp add: star_attributes_returns)
qed

text \<open>
  Beyond \<open>2^24\<close> convolutions the single-precision product can miss the fraction. An
  input read by \<open>2^25\<close> convolutions, \<open>2^24 + 1\<close> of them optimized for b\_fs\_yx\_fsv16:
  the count rounds to \<open>2^24\<close>, the reciprocal of the total is \<open>2^-25\<close>, the product is
  exactly one half, and the attribute stays cleared although more than half of the
  convolutions are optimized.
\<close>

lemma f32_exponent_at:
  "f32_exponent 16777217 = 24"
  "f32_exponent 33554432 = 25"
  "f32_exponent (1 / 33554432) = - 25"
  "f32_exponent (1 / 2) = - 1"
  by (simp_all add: f32_exponent_def compute_bitlen)

lemma to_f32_at:
  "to_f32 16777217 = 16777216"
  "to_f32 33554432 = 33554432"
  "to_f32 (1 / 33554432) = 1 / 33554432"
  "to_f32 (1 / 2) = 1 / 2"
  by (simp_all add: to_f32_def f32_exponent_at round_half_even_def two_to_def Let_def)

lemma times_cond_denom_half: "times_cond_denom 16777217 33554432 = 1 / 2"
  by (simp add: times_cond_denom_def cond_denom_def to_f32_at)

lemma fsv16_rounding_at_half:
  "set_layout_optimizer_attributes (counting_ops 16777217 False False) (conv_star 33554432 0)
     fresh_optimizer
     = Inr (star_attributes (counting_ops 16777217 False False) (conv_star 33554432 0))
   \<and> total_convs (counting_ops 16777217 False False)
        (star_attributes (counting_ops 16777217 False False) (conv_star 33554432 0)) = 33554432
   \<and> fsv16_convs (counting_ops 16777217 False False)
        (star_attributes (counting_ops 16777217 False False) (conv_star 33554432 0)) = 16777217
   \<and> fsv16_threshold_counted (counting_ops 16777217 False False) (conv_star 33554432 0)
        fresh_optimizer
        (star_attributes (counting_ops 16777217 False False) (conv_star 33554432 0))
   \<and> optimization_attributes
        (star_attributes (counting_ops 16777217 False False) (conv_star 33554432 0))
        b_fs_yx_fsv16_network = 0"
proof -
  have tc: "total_convs (counting_ops 16777217 False False)
        (star_attributes (counting_ops 16777217 False False) (conv_star 33554432 0)) = 33554432"
    and fc: "fsv16_convs (counting_ops 16777217 False False)
        (star_attributes (counting_ops 16777217 False False) (conv_star 33554432 0)) = 16777217"
    by (simp_all add: star_attributes_returns)
  have counted: "fsv16_threshold_counted (counting_ops 16777217 False False)
        (conv_star 33554432 0) fresh_optimizer
        (star_attributes (counting_ops 16777217 False False) (conv_star 33554432 0))"
    by (simp add: fsv16_threshold_counted_def conv_star_claim_side tc fc)
  have f32: "\<not> fsv16_threshold_f32 (counting_ops 16777217 False False)
        (conv_star 33554432 0) fresh_optimizer
        (star_attributes (counting_ops 16777217 False False) (conv_star 33554432 0))"
    by (simp add: fsv16_threshold_f32_def conv_star_claim_side conv_star_deconvs tc fc
        times_cond_denom_half)
  have "optimization_attributes
        (star_attributes (counting_ops 16777217 False False) (conv_star 33554432 0))
        b_fs_yx_fsv16_network = 0"
    using fsv16_attribute_f32 [OF star_attributes_returns(1), of 16777217 False False 33554432 0]
      f32
    by (simp add: fresh_optimizer_cleared)
  with counted tc fc show ?thesis
    by (simp add: star_attributes_returns(1))
qed

end
